theory Spec2Isabelle
  imports Complex_Main
begin

section \<open>Strings as the service sees them\<close>

text \<open>
  A Python \<open>str\<close> is modelled as a \<open>string\<close> whose characters are the code points
  below 256. \<open>is_space\<close> is \<open>str.isspace\<close> on those code points (tab to carriage
  return, the four separators 28 to 31, the blank, NEL and the no-break space);
  \<open>lower\<close> is \<open>str.lower\<close> there (the letters A to Z, and the Latin-1 capitals 192 to
  222 without the multiplication sign 215, move up by 32).
\<close>

definition is_space :: "char \<Rightarrow> bool" where
  "is_space c = (let n = (of_char c :: nat) in
     (9 \<le> n \<and> n \<le> 13) \<or> (28 \<le> n \<and> n \<le> 32) \<or> n = 133 \<or> n = 160)"

definition lower_char :: "char \<Rightarrow> char" where
  "lower_char c = (let n = (of_char c :: nat) in
     if (65 \<le> n \<and> n \<le> 90) \<or> (192 \<le> n \<and> n \<le> 222 \<and> n \<noteq> 215) then char_of (n + 32) else c)"

definition lower :: "string \<Rightarrow> string" where
  "lower s = map lower_char s"

text \<open>
  \<open>text.split()\<close> without arguments: leading whitespace is skipped, a word is the run of
  characters up to the next whitespace character, and no empty word is produced.
\<close>

function str_split :: "string \<Rightarrow> string list" where
  "str_split [] = []"
| "str_split (c # cs) =
     (if is_space c then str_split cs
      else (c # takeWhile (\<lambda>x. \<not> is_space x) cs) # str_split (dropWhile (\<lambda>x. \<not> is_space x) cs))"
  by pat_completeness auto
termination
  by (relation "measure length") (auto simp: length_dropWhile_le less_Suc_eq_le)

text \<open>\<open>" ".join(ws)\<close>.\<close>

fun join :: "string list \<Rightarrow> string" where
  "join [] = []"
| "join [w] = w"
| "join (w # v # ws) = w @ CHR '' '' # join (v # ws)"

text \<open>
  \<open>xs[start:stop]\<close> for integer bounds: a negative bound counts from the end, and both
  bounds are clamped to the list.
\<close>

definition py_slice :: "'a list \<Rightarrow> int \<Rightarrow> int \<Rightarrow> 'a list" where
  "py_slice xs start stop =
     (let n = int (length xs);
          s = (if start < 0 then max (start + n) 0 else min start n);
          e = (if stop < 0 then max (stop + n) 0 else min stop n)
      in if s < e then take (nat (e - s)) (drop (nat s) xs) else [])"

text \<open>\<open>word in s\<close> on strings: \<open>word\<close> occurs in \<open>s\<close> as a contiguous substring.\<close>

fun substring :: "string \<Rightarrow> string \<Rightarrow> bool" where
  "substring w [] = (w = [])"
| "substring w (c # cs) = (take (length w) (c # cs) = w \<or> substring w cs)"

text \<open>\<open>str(i)\<close> for a non-negative integer: its decimal digits.\<close>

function str_nat :: "nat \<Rightarrow> string" where
  "str_nat n =
     (if n < 10 then [''0123456789'' ! n]
      else str_nat (n div 10) @ [''0123456789'' ! (n mod 10)])"
  by pat_completeness auto
termination
  by (relation "measure id") auto

declare str_nat.simps [simp del]

section \<open>Configuration and models\<close>

datatype RetentionPolicy = INFINITE | DAYS_10 | DAYS_30 | MONTHS_3 | MONTHS_6 | YEAR_1

fun RETENTION_DAYS :: "RetentionPolicy \<Rightarrow> int option" where
  "RETENTION_DAYS INFINITE = None"
| "RETENTION_DAYS DAYS_10 = Some 10"
| "RETENTION_DAYS DAYS_30 = Some 30"
| "RETENTION_DAYS MONTHS_3 = Some 90"
| "RETENTION_DAYS MONTHS_6 = Some 180"
| "RETENTION_DAYS YEAR_1 = Some 365"

text \<open>
  A \<open>datetime\<close> is its number of microseconds since the epoch, and \<open>timedelta(days=d)\<close>
  the microseconds of \<open>d\<close> days; the arithmetic is that of the integers (the
  \<open>OverflowError\<close> of a date beyond the year 9999 is not modelled).

  \<open>datetime.utcnow()\<close> reads the wall clock. Every operation that reads it takes a
  \<open>clock\<close>: \<open>clock n\<close> is the value of the \<open>n\<close>-th reading made during that call,
  counted from 0. Nothing is assumed about the readings.
\<close>

type_synonym datetime = int
type_synonym clock = "nat \<Rightarrow> datetime"

definition timedelta :: "int \<Rightarrow> int" where
  "timedelta days = days * 86400000000"

record ChunkMetadata =
  chunk_id :: string
  content_hash :: string
  agent_id :: string
  source_type :: string
  source_id :: string
  timestamp :: datetime
  retention_policy :: RetentionPolicy
  expires_at :: "datetime option"

text \<open>The \<open>embedding\<close> field of a \<open>DocumentChunk\<close> is never assigned and is left out.\<close>

record DocumentChunk =
  content :: string
  metadata :: ChunkMetadata

record IndexRequest =
  ir_content :: string
  ir_agent_id :: string
  ir_source_type :: string
  ir_source_id :: string
  ir_extract_entities :: bool
  ir_retention_policy :: RetentionPolicy

text \<open>
  A Python \<open>float\<close> is a binary64 number. \<open>min_score\<close> comes from the request and can
  be any of them: a finite one, given by its exact value, an infinity, or NaN. A
  score is always finite and is given by its exact value.

  \<open>true_div m n\<close> is Python's \<open>m / n\<close> on integers with \<open>m \<le> n\<close> and \<open>0 < n\<close>, the only
  ones the search divides (a count of matching words by the count of all words): the
  binary64 number nearest to the quotient, ties to the even mantissa. The mantissa
  has 53 bits, so the quotient is scaled by \<open>2 ^ e\<close> with \<open>e = 52 + k\<close>, where \<open>k\<close>
  (\<open>float_shift\<close>) is the least number with \<open>n \<le> m * 2 ^ k\<close>, and \<open>e\<close> stops at 1074,
  the exponent of the subnormal numbers; the scaled quotient is then rounded to an
  integer. \<open>float_ge x y\<close> is \<open>x >= y\<close> for a finite \<open>x\<close>: the comparison of the two
  values, and false when \<open>y\<close> is NaN.
\<close>

datatype pyfloat = Finite rat | PosInf | NegInf | NaN

function float_shift :: "nat \<Rightarrow> nat \<Rightarrow> nat \<Rightarrow> nat" where
  "float_shift m n k = (if m = 0 \<or> n \<le> m * 2 ^ k then k else float_shift m n (Suc k))"
  by pat_completeness auto
termination
proof (relation "measure (\<lambda>(m, n, k). n - m * 2 ^ k)")
  show "wf (measure (\<lambda>(m, n, k). n - m * 2 ^ k))" by simp
next
  fix m n k :: nat
  assume "\<not> (m = 0 \<or> n \<le> m * 2 ^ k)"
  then have "0 < m" and below: "m * 2 ^ k < n" by simp_all
  then have "m * 2 ^ k < m * 2 ^ Suc k" by simp
  from diff_less_mono2 [OF this below]
  show "((m, n, Suc k), (m, n, k)) \<in> measure (\<lambda>(m, n, k). n - m * 2 ^ k)"
    by simp
qed

declare float_shift.simps [simp del]

definition true_div :: "nat \<Rightarrow> nat \<Rightarrow> rat" where
  "true_div m n =
     (let e = min (52 + float_shift m n 0) 1074;
          scaled = m * 2 ^ e;
          q = scaled div n;
          r = scaled mod n;
          mant = (if 2 * r < n then q else if n < 2 * r then q + 1
                  else if even q then q else q + 1)
      in of_nat mant / 2 ^ e)"

definition float_ge :: "rat \<Rightarrow> pyfloat \<Rightarrow> bool" where
  "float_ge x y =
     (case y of Finite b \<Rightarrow> b \<le> x | PosInf \<Rightarrow> False | NegInf \<Rightarrow> True | NaN \<Rightarrow> False)"

record SearchRequest =
  query :: string
  sr_agent_id :: string
  include_shared :: bool
  search_type :: string
  limit :: int
  min_score :: pyfloat

record SearchResult =
  res_content :: string
  score :: rat
  res_source_type :: string
  res_source_id :: string
  res_agent_id :: string
  res_timestamp :: datetime
  search_method :: string

section \<open>ChunkingStrategy\<close>

text \<open>
  The \<open>while\<close> loop of \<open>chunk_text\<close>, with the index \<open>i\<close> and the list \<open>chunks\<close> as
  loop state. The source checks neither \<open>chunk_size\<close> nor \<open>overlap\<close>, so the loop need
  not end: \<open>None\<close> is a run that never returns.
\<close>

partial_function (option) chunk_loop ::
  "string list \<Rightarrow> int \<Rightarrow> int \<Rightarrow> int \<Rightarrow> string list \<Rightarrow> string list option" where
  "chunk_loop words chunk_size overlap i chunks =
     (if i < int (length words)
      then chunk_loop words chunk_size overlap (i + (chunk_size - overlap))
             (chunks @ [join (py_slice words i (i + chunk_size))])
      else Some chunks)"

definition chunk_text :: "string \<Rightarrow> int \<Rightarrow> int \<Rightarrow> string list option" where
  "chunk_text text chunk_size overlap = chunk_loop (str_split text) chunk_size overlap 0 []"

text \<open>
  The chunks the loop appends from index \<open>i\<close> on when \<open>overlap < chunk_size\<close>, where
  every round moves \<open>i\<close> forward; \<open>chunk_loop_returns\<close> below shows that the loop
  returns them.
\<close>

function windows_from :: "string list \<Rightarrow> int \<Rightarrow> int \<Rightarrow> int \<Rightarrow> string list" where
  "windows_from words chunk_size overlap i =
     (if overlap < chunk_size \<and> i < int (length words)
      then join (py_slice words i (i + chunk_size))
             # windows_from words chunk_size overlap (i + (chunk_size - overlap))
      else [])"
  by pat_completeness auto
termination
  by (relation "measure (\<lambda>(words, chunk_size, overlap, i). nat (int (length words) - i))") auto

declare windows_from.simps [simp del]

text \<open>
  \<open>compute_hash\<close> keeps the first 16 characters of a hexadecimal SHA-256 digest. The
  digest comes from the standard library, not from this repository: it is the
  parameter \<open>digest\<close>, the function that sends a string to
  \<open>hashlib.sha256(s.encode()).hexdigest()\<close>. Every theorem below holds for every
  \<open>digest\<close>.
\<close>

definition compute_hash :: "(string \<Rightarrow> string) \<Rightarrow> string \<Rightarrow> string" where
  "compute_hash digest cont = take 16 (digest cont)"

text \<open>
  The expiry computed under a policy, in \<open>prepare_chunks\<close> and in
  \<open>set_retention_policy\<close> alike: \<open>None\<close> for \<open>INFINITE\<close>, and otherwise the clock,
  read now, plus the days of the policy. \<open>t\<close> is the number of clock readings made so
  far; the second component is that number afterwards. (Only \<open>INFINITE\<close> has no day
  count, so the \<open>None\<close> case of the lookup is not reached.)
\<close>

definition compute_expiry :: "clock \<Rightarrow> nat \<Rightarrow> RetentionPolicy \<Rightarrow> datetime option \<times> nat" where
  "compute_expiry clock t policy =
     (if policy \<noteq> INFINITE
      then (case RETENTION_DAYS policy of
              Some days \<Rightarrow> (Some (clock t + timedelta days), Suc t)
            | None \<Rightarrow> (None, t))
      else (None, t))"

text \<open>
  One round of the loop of \<open>prepare_chunks\<close> over \<open>enumerate(chunks)\<close>, for the chunk
  of ordinal \<open>i\<close>, after \<open>t\<close> clock readings: the expiry is computed first, then
  \<open>timestamp\<close> reads the clock again. \<open>prepare_loop\<close> is the loop.
\<close>

definition make_chunk ::
  "(string \<Rightarrow> string) \<Rightarrow> clock \<Rightarrow> string \<Rightarrow> string \<Rightarrow> string \<Rightarrow> RetentionPolicy \<Rightarrow>
   nat \<Rightarrow> nat \<Rightarrow> string \<Rightarrow> DocumentChunk" where
  "make_chunk digest clock agent styp sid policy i t chunk_content =
     \<lparr>content = chunk_content,
      metadata =
        \<lparr>chunk_id = agent @ ''_'' @ sid @ ''_'' @ str_nat i @ ''_''
                      @ compute_hash digest chunk_content,
         content_hash = compute_hash digest chunk_content,
         agent_id = agent, source_type = styp, source_id = sid,
         timestamp = clock (snd (compute_expiry clock t policy)),
         retention_policy = policy,
         expires_at = fst (compute_expiry clock t policy)\<rparr>\<rparr>"

fun prepare_loop ::
  "(string \<Rightarrow> string) \<Rightarrow> clock \<Rightarrow> string \<Rightarrow> string \<Rightarrow> string \<Rightarrow> RetentionPolicy \<Rightarrow>
   nat \<Rightarrow> nat \<Rightarrow> string list \<Rightarrow> DocumentChunk list" where
  "prepare_loop digest clock agent styp sid policy i t [] = []"
| "prepare_loop digest clock agent styp sid policy i t (chunk_content # rest) =
     make_chunk digest clock agent styp sid policy i t chunk_content
       # prepare_loop digest clock agent styp sid policy (Suc i)
           (Suc (snd (compute_expiry clock t policy))) rest"

definition prepare_chunks ::
  "(string \<Rightarrow> string) \<Rightarrow> clock \<Rightarrow> string \<Rightarrow> string \<Rightarrow> string \<Rightarrow> string \<Rightarrow> RetentionPolicy \<Rightarrow>
   DocumentChunk list option" where
  "prepare_chunks digest clock cont agent styp sid policy =
     (case chunk_text cont 500 50 of
        None \<Rightarrow> None
      | Some chunks \<Rightarrow> Some (prepare_loop digest clock agent styp sid policy 0 0 chunks))"

section \<open>The stores of the service\<close>

text \<open>
  \<open>indexed_chunks\<close> is a \<open>dict\<close>, which keeps its keys in insertion order: the list of
  its items. \<open>dict_set\<close> is \<open>d[k] = v\<close> (an existing key keeps its place),
  \<open>dict_del\<close> is \<open>del d[k]\<close> for a key of the dict. \<open>indexed_hashes\<close> is the class
  attribute of \<open>DeduplicationStrategy\<close>. The graph stores are left out: the entity
  extractor returns two empty lists, so the background task stores nothing.
\<close>

fun dict_set :: "('k \<times> 'v) list \<Rightarrow> 'k \<Rightarrow> 'v \<Rightarrow> ('k \<times> 'v) list" where
  "dict_set [] k v = [(k, v)]"
| "dict_set ((k', v') # kvs) k v =
     (if k' = k then (k', v) # kvs else (k', v') # dict_set kvs k v)"

definition dict_del :: "('k \<times> 'v) list \<Rightarrow> 'k \<Rightarrow> ('k \<times> 'v) list" where
  "dict_del kvs k = filter (\<lambda>kv. fst kv \<noteq> k) kvs"

record state =
  indexed_chunks :: "(string \<times> DocumentChunk) list"
  indexed_hashes :: "string set"
  retention_settings :: "string \<rightharpoonup> RetentionPolicy"

definition init_state :: state where
  "init_state = \<lparr>indexed_chunks = [], indexed_hashes = {}, retention_settings = Map.empty\<rparr>"

section \<open>DeduplicationStrategy\<close>

definition is_duplicate :: "state \<Rightarrow> string \<Rightarrow> bool" where
  "is_duplicate s h = (h \<in> indexed_hashes s)"

definition mark_indexed :: "state \<Rightarrow> string \<Rightarrow> state" where
  "mark_indexed s h = s\<lparr>indexed_hashes := insert h (indexed_hashes s)\<rparr>"

definition should_index_to_rag :: "string \<Rightarrow> string \<Rightarrow> bool" where
  "should_index_to_rag cont styp =
     (if styp \<in> set [''document'', ''conversation_complete''] then True
      else if styp = ''system'' then False
      else if length cont > 100 then True
      else False)"

section \<open>Endpoints\<close>

datatype index_response =
    Skipped string
  | Success (indexed: nat) (skipped: nat) (total_chunks: nat)

text \<open>The \<open>for chunk in chunks\<close> loop of \<open>index_content\<close> with its two counters.\<close>

fun index_loop :: "state \<Rightarrow> nat \<Rightarrow> nat \<Rightarrow> DocumentChunk list \<Rightarrow> state \<times> nat \<times> nat" where
  "index_loop s indexed_count skipped_count [] = (s, indexed_count, skipped_count)"
| "index_loop s indexed_count skipped_count (chunk # rest) =
     (if is_duplicate s (content_hash (metadata chunk))
      then index_loop s indexed_count (skipped_count + 1) rest
      else index_loop
             (mark_indexed
                (s\<lparr>indexed_chunks := dict_set (indexed_chunks s) (chunk_id (metadata chunk)) chunk\<rparr>)
                (content_hash (metadata chunk)))
             (indexed_count + 1) skipped_count rest)"

definition index_content ::
  "(string \<Rightarrow> string) \<Rightarrow> clock \<Rightarrow> state \<Rightarrow> IndexRequest \<Rightarrow> (index_response \<times> state) option" where
  "index_content digest clock s request =
     (if \<not> should_index_to_rag (ir_content request) (ir_source_type request)
      then Some (Skipped ''content_type_excluded'', s)
      else
        (case prepare_chunks digest clock (ir_content request) (ir_agent_id request)
                (ir_source_type request) (ir_source_id request) (ir_retention_policy request) of
           None \<Rightarrow> None
         | Some chunks \<Rightarrow>
             (let (s', indexed_count, skipped_count) = index_loop s 0 0 chunks
              in Some (Success indexed_count skipped_count (length chunks), s'))))"

text \<open>
  \<open>hybrid_search\<close>: the body of the loop over the items of \<open>indexed_chunks\<close> gives at
  most one result per chunk; \<open>search_type\<close> is not read. The sort is Python's stable
  sort with \<open>reverse=True\<close>, which orders by descending score and keeps results of
  equal score in their order: the stable insertion sort on the negated score.
\<close>

definition make_result :: "DocumentChunk \<Rightarrow> rat \<Rightarrow> SearchResult" where
  "make_result chunk sc =
     \<lparr>res_content = content chunk, score = sc,
      res_source_type = source_type (metadata chunk),
      res_source_id = source_id (metadata chunk),
      res_agent_id = agent_id (metadata chunk),
      res_timestamp = timestamp (metadata chunk),
      search_method = ''bm25''\<rparr>"

definition search_chunk :: "SearchRequest \<Rightarrow> string list \<Rightarrow> DocumentChunk \<Rightarrow> SearchResult list" where
  "search_chunk request agent_filter chunk =
     (if agent_id (metadata chunk) \<notin> set agent_filter then []
      else
        (let content_lower = lower (content chunk);
             query_words = str_split (lower (query request));
             matches = length (filter (\<lambda>word. substring word content_lower) query_words)
         in if matches > 0
            then (let sc = true_div matches (length query_words)
                  in if float_ge sc (min_score request) then [make_result chunk sc] else [])
            else []))"

text \<open>The list \<open>results\<close> when the loop is over, before it is sorted.\<close>

definition search_results :: "state \<Rightarrow> SearchRequest \<Rightarrow> SearchResult list" where
  "search_results s request =
     (let agent_filter = [sr_agent_id request] @ (if include_shared request then [''shared''] else [])
      in concat (map (\<lambda>(cid, chunk). search_chunk request agent_filter chunk) (indexed_chunks s)))"

definition hybrid_search :: "state \<Rightarrow> SearchRequest \<Rightarrow> SearchResult list" where
  "hybrid_search s request =
     py_slice (sort_key (\<lambda>x. - score x) (search_results s request)) 0 (limit request)"

text \<open>
  \<open>set_retention_policy\<close>: \<open>update_chunk\<close> is what the loop does to a chunk of the
  agent, and \<open>retention_loop\<close> is the loop over the chunks of the store, with \<open>t\<close> the
  number of clock readings made so far and \<open>updated\<close> the counter. Its result is the
  new store and \<open>updated_chunks\<close>.
\<close>

definition update_chunk :: "clock \<Rightarrow> RetentionPolicy \<Rightarrow> nat \<Rightarrow> DocumentChunk \<Rightarrow> DocumentChunk" where
  "update_chunk clock policy t chunk =
     chunk\<lparr>metadata := (metadata chunk)\<lparr>retention_policy := policy,
                                        expires_at := fst (compute_expiry clock t policy)\<rparr>\<rparr>"

fun retention_loop ::
  "clock \<Rightarrow> string \<Rightarrow> RetentionPolicy \<Rightarrow> nat \<Rightarrow> nat \<Rightarrow> (string \<times> DocumentChunk) list \<Rightarrow>
   (string \<times> DocumentChunk) list \<times> nat" where
  "retention_loop clock agent policy t updated [] = ([], updated)"
| "retention_loop clock agent policy t updated (kv # rest) =
     (if agent_id (metadata (snd kv)) = agent
      then
        (let r = retention_loop clock agent policy (snd (compute_expiry clock t policy))
                   (updated + 1) rest
         in ((fst kv, update_chunk clock policy t (snd kv)) # fst r, snd r))
      else
        (let r = retention_loop clock agent policy t updated rest
         in (kv # fst r, snd r)))"

definition set_retention_policy :: "clock \<Rightarrow> state \<Rightarrow> string \<Rightarrow> RetentionPolicy \<Rightarrow> nat \<times> state" where
  "set_retention_policy clock s agent policy =
     (let s1 = s\<lparr>retention_settings := (retention_settings s)(agent \<mapsto> policy)\<rparr>;
          (chunks', updated) = retention_loop clock agent policy 0 0 (indexed_chunks s1)
      in (updated, s1\<lparr>indexed_chunks := chunks'\<rparr>))"

text \<open>
  \<open>cleanup_expired\<close>: one clock reading, the keys to remove collected in \<open>to_remove\<close>,
  then one \<open>del\<close> per key. A \<open>datetime\<close> is always truthy, so the test
  \<open>expires_at and expires_at < now\<close> is: not \<open>None\<close>, and before \<open>now\<close>.
\<close>

definition is_expired :: "datetime \<Rightarrow> DocumentChunk \<Rightarrow> bool" where
  "is_expired now chunk =
     (case expires_at (metadata chunk) of None \<Rightarrow> False | Some e \<Rightarrow> e < now)"

definition cleanup_expired :: "clock \<Rightarrow> state \<Rightarrow> nat \<times> state" where
  "cleanup_expired clock s =
     (let now = clock 0;
          to_remove = map fst (filter (\<lambda>(cid, chunk). is_expired now chunk) (indexed_chunks s))
      in (length to_remove, s\<lparr>indexed_chunks := foldl dict_del (indexed_chunks s) to_remove\<rparr>))"

text \<open>
  The fingerprints of the chunks of a content: what \<open>index_content\<close> looks up in
  \<open>indexed_hashes\<close> for it.
\<close>

definition content_hashes :: "(string \<Rightarrow> string) \<Rightarrow> string \<Rightarrow> string set" where
  "content_hashes digest cont =
     compute_hash digest ` set (windows_from (str_split cont) 500 50 0)"

section \<open>Example requests\<close>

text \<open>
  The closed instances below run the service from \<open>init_state\<close> on these requests,
  with the identity as \<open>digest\<close>.
\<close>

definition fixed_clock :: "datetime \<Rightarrow> clock" where
  "fixed_clock now n = now"

definition doc_request :: "string \<Rightarrow> string \<Rightarrow> string \<Rightarrow> RetentionPolicy \<Rightarrow> IndexRequest" where
  "doc_request cont agent sid policy =
     \<lparr>ir_content = cont, ir_agent_id = agent, ir_source_type = ''document'',
      ir_source_id = sid, ir_extract_entities = True, ir_retention_policy = policy\<rparr>"

definition stored_chunk ::
  "string \<Rightarrow> string \<Rightarrow> string \<Rightarrow> string \<Rightarrow> datetime \<Rightarrow> RetentionPolicy \<Rightarrow> datetime option \<Rightarrow>
   string \<times> DocumentChunk" where
  "stored_chunk cid cont agent sid ts policy expiry =
     (cid, \<lparr>content = cont,
            metadata = \<lparr>chunk_id = cid, content_hash = cont, agent_id = agent,
                        source_type = ''document'', source_id = sid, timestamp = ts,
                        retention_policy = policy, expires_at = expiry\<rparr>\<rparr>)"

definition search_request :: "string \<Rightarrow> string \<Rightarrow> SearchRequest" where
  "search_request q agent =
     \<lparr>query = q, sr_agent_id = agent, include_shared = True, search_type = ''hybrid'',
      limit = 10, min_score = Finite (1 / 2)\<rparr>"

section \<open>Reciprocal Rank Fusion, as the specification words it\<close>

text \<open>
  Not a translation of the source, which has no rank fusion: the score that claim C1
  describes, for comparison with the score that \<open>hybrid_search\<close> returns.
  \<open>rank_in x l\<close> is the 1-based rank of \<open>x\<close> in the result list \<open>l\<close> of one backend, and
  \<open>spec_rrf_score k backend_lists x\<close> adds \<open>1 / (k + r)\<close> over the lists that contain \<open>x\<close>.
\<close>

fun rank_in :: "'a \<Rightarrow> 'a list \<Rightarrow> nat option" where
  "rank_in x [] = None"
| "rank_in x (y # ys) = (if x = y then Some 1 else map_option Suc (rank_in x ys))"

definition spec_rrf_score :: "nat \<Rightarrow> 'a list list \<Rightarrow> 'a \<Rightarrow> rat" where
  "spec_rrf_score k backend_lists x =
     sum_list (map (\<lambda>l. case rank_in x l of None \<Rightarrow> 0 | Some r \<Rightarrow> 1 / of_nat (k + r))
                 backend_lists)"

section \<open>The chunking loop: when it returns and when it does not\<close>

lemma chunk_loop_diverges_aux:
  assumes "chunk_loop words chunk_size overlap i chunks = Some y"
  shows "\<not> (chunk_size \<le> overlap \<and> i < int (length words))"
  using assms
proof (rule chunk_loop.raw_induct [where P = "\<lambda>words chunk_size overlap i chunks y.
        \<not> (chunk_size \<le> overlap \<and> i < int (length words))", rotated])
  fix f ws cs ov j acc r
  assume IH: "\<And>ws cs ov j acc r. f ws cs ov j acc = Some r \<Longrightarrow>
                 \<not> (cs \<le> ov \<and> j < int (length ws))"
    and body: "(if j < int (length ws)
                then f ws cs ov (j + (cs - ov)) (acc @ [join (py_slice ws j (j + cs))])
                else Some acc) = Some (r :: string list)"
  show "\<not> (cs \<le> ov \<and> j < int (length ws))"
  proof
    assume bad: "cs \<le> ov \<and> j < int (length ws)"
    with body have "f ws cs ov (j + (cs - ov)) (acc @ [join (py_slice ws j (j + cs))]) = Some r"
      by simp
    from IH [OF this] bad show False by simp
  qed
qed

lemma chunk_loop_diverges:
  "chunk_size \<le> overlap \<Longrightarrow> i < int (length words) \<Longrightarrow>
     chunk_loop words chunk_size overlap i chunks = None"
  using chunk_loop_diverges_aux by (cases "chunk_loop words chunk_size overlap i chunks") auto

lemma chunk_loop_returns:
  "overlap < chunk_size \<Longrightarrow>
     chunk_loop words chunk_size overlap i chunks
       = Some (chunks @ windows_from words chunk_size overlap i)"
proof (induction words chunk_size overlap i arbitrary: chunks rule: windows_from.induct)
  case (1 words chunk_size overlap i)
  show ?case
  proof (cases "i < int (length words)")
    case True
    with 1 show ?thesis
      by (subst chunk_loop.simps, subst windows_from.simps) simp
  next
    case False
    then show ?thesis
      by (subst chunk_loop.simps, subst windows_from.simps) simp
  qed
qed

lemma chunk_text_returns:
  "overlap < chunk_size \<Longrightarrow>
     chunk_text t chunk_size overlap = Some (windows_from (str_split t) chunk_size overlap 0)"
  by (simp add: chunk_text_def chunk_loop_returns)

lemma prepare_chunks_returns:
  "prepare_chunks digest clock cont agent styp sid policy
     = Some (prepare_loop digest clock agent styp sid policy 0 0
               (windows_from (str_split cont) 500 50 0))"
  by (simp add: prepare_chunks_def chunk_text_returns)

lemma index_content_accepted:
  assumes "should_index_to_rag (ir_content request) (ir_source_type request)"
  shows "index_content digest clock s request =
     (let chunks = prepare_loop digest clock (ir_agent_id request) (ir_source_type request)
                     (ir_source_id request) (ir_retention_policy request) 0 0
                     (windows_from (str_split (ir_content request)) 500 50 0);
          r = index_loop s 0 0 chunks
      in Some (Success (fst (snd r)) (snd (snd r)) (length chunks), fst r))"
  using assms
  by (simp add: index_content_def prepare_chunks_returns Let_def split: prod.splits)

section \<open>Claim C4: chunking parameters with \<open>overlap \<ge> chunk_size\<close>\<close>

text \<open>
  C4, as stated, says that \<open>chunk_text\<close> with \<open>overlap \<ge> window_size\<close> fails with a
  \<open>ConfigurationError\<close> before any work, and neither loops nor returns a result. The
  source has no such check. On the empty text with \<open>chunk_size = overlap = 50\<close> the
  call returns the empty list, and on the text \<open>a\<close> it never returns.
\<close>

theorem chunk_text_no_configuration_error:
  "chunk_text '''' 50 50 = Some [] \<and> chunk_text ''a'' 50 50 = None"
proof
  show "chunk_text '''' 50 50 = Some []"
    by (simp add: chunk_text_def chunk_loop.simps)
  have "chunk_loop [''a''] 50 50 0 [] = None"
    by (rule chunk_loop_diverges) simp_all
  then show "chunk_text ''a'' 50 50 = None"
    by (simp add: chunk_text_def is_space_def)
qed

text \<open>
  C4, amended: for every text and every parameter pair with \<open>overlap \<ge> chunk_size\<close>,
  \<open>chunk_text\<close> raises no error. It returns the empty list when the text has no word,
  and it does not return when the text has at least one word.
\<close>

theorem chunk_text_unchecked:
  assumes "chunk_size \<le> overlap"
  shows "chunk_text t chunk_size overlap = (if str_split t = [] then Some [] else None)"
proof (cases "str_split t = []")
  case True
  then show ?thesis by (simp add: chunk_text_def chunk_loop.simps)
next
  case False
  then have "0 < int (length (str_split t))" by simp
  from chunk_loop_diverges [OF assms this] False show ?thesis
    by (simp add: chunk_text_def)
qed

theorem chunk_text_unchecked_witness:
  "(5::int) \<le> 5 \<and> chunk_text ''a b c'' 5 5 = None \<and> chunk_text ''  '' 5 5 = Some []"
  using chunk_text_unchecked [of 5 5 "''a b c''"] chunk_text_unchecked [of 5 5 "''  ''"]
  by (simp add: is_space_def)

section \<open>Deduplication: what an ingestion leaves in \<open>indexed_hashes\<close>\<close>

lemma prepare_loop_hashes:
  "map (\<lambda>c. content_hash (metadata c)) (prepare_loop digest clock agent styp sid policy i t ws)
     = map (compute_hash digest) ws"
  by (induction ws arbitrary: i t) (simp_all add: make_chunk_def)

lemma length_prepare_loop:
  "length (prepare_loop digest clock agent styp sid policy i t ws) = length ws"
  by (induction ws arbitrary: i t) simp_all

lemma index_loop_all_duplicates:
  "\<forall>c \<in> set cs. content_hash (metadata c) \<in> indexed_hashes s \<Longrightarrow>
     index_loop s n k cs = (s, n, k + length cs)"
  by (induction cs arbitrary: k) (simp_all add: is_duplicate_def)

lemma index_loop_hashes:
  "indexed_hashes (fst (index_loop s n k cs))
     = indexed_hashes s \<union> (\<lambda>c. content_hash (metadata c)) ` set cs"
  by (induction cs arbitrary: s n k) (auto simp: is_duplicate_def mark_indexed_def)

lemma index_content_hashes:
  assumes "should_index_to_rag (ir_content request) (ir_source_type request)"
    and "index_content digest clock s request = Some (resp, s')"
  shows "indexed_hashes s' = indexed_hashes s \<union> content_hashes digest (ir_content request)"
    and "total_chunks resp = length (windows_from (str_split (ir_content request)) 500 50 0)"
proof -
  let ?chunks = "prepare_loop digest clock (ir_agent_id request) (ir_source_type request)
                     (ir_source_id request) (ir_retention_policy request) 0 0
                     (windows_from (str_split (ir_content request)) 500 50 0)"
  from assms index_content_accepted [OF assms(1), of digest clock s]
  have s': "s' = fst (index_loop s 0 0 ?chunks)"
    and resp: "resp = Success (fst (snd (index_loop s 0 0 ?chunks)))
                        (snd (snd (index_loop s 0 0 ?chunks))) (length ?chunks)"
    by (simp_all add: Let_def)
  have "(\<lambda>c. content_hash (metadata c)) ` set ?chunks
          = set (map (\<lambda>c. content_hash (metadata c)) ?chunks)"
    by simp
  also have "\<dots> = content_hashes digest (ir_content request)"
    by (simp only: prepare_loop_hashes content_hashes_def set_map)
  finally show "indexed_hashes s' = indexed_hashes s \<union> content_hashes digest (ir_content request)"
    by (simp only: s' index_loop_hashes)
  show "total_chunks resp = length (windows_from (str_split (ir_content request)) 500 50 0)"
    by (simp add: resp length_prepare_loop)
qed

lemma index_content_known:
  assumes "should_index_to_rag (ir_content request) (ir_source_type request)"
    and "content_hashes digest (ir_content request) \<subseteq> indexed_hashes s"
  shows "index_content digest clock s request =
           Some (Success 0 (length (windows_from (str_split (ir_content request)) 500 50 0))
                   (length (windows_from (str_split (ir_content request)) 500 50 0)), s)"
proof -
  let ?chunks = "prepare_loop digest clock (ir_agent_id request) (ir_source_type request)
                     (ir_source_id request) (ir_retention_policy request) 0 0
                     (windows_from (str_split (ir_content request)) 500 50 0)"
  have "set (map (\<lambda>c. content_hash (metadata c)) ?chunks)
          = content_hashes digest (ir_content request)"
    by (simp only: prepare_loop_hashes content_hashes_def set_map)
  with assms(2) have "\<forall>c \<in> set ?chunks. content_hash (metadata c) \<in> indexed_hashes s"
    by auto
  then have "index_loop s 0 0 ?chunks = (s, 0, 0 + length ?chunks)"
    by (rule index_loop_all_duplicates)
  then show ?thesis
    by (simp add: index_content_accepted [OF assms(1)] Let_def length_prepare_loop)
qed

lemma cleanup_keeps_hashes:
  "indexed_hashes (snd (cleanup_expired clock s)) = indexed_hashes s"
  by (simp add: cleanup_expired_def Let_def)

lemma prepare_loop_chunk_ids:
  "map (\<lambda>c. chunk_id (metadata c)) (prepare_loop digest clock agent styp sid policy i t ws)
     = map (\<lambda>(j, w). agent @ ''_'' @ sid @ ''_'' @ str_nat j @ ''_'' @ compute_hash digest w)
         (enumerate i ws)"
  by (induction ws arbitrary: i t) (simp_all add: make_chunk_def)

lemmas run_defs =
  index_content_def prepare_chunks_def chunk_text_def chunk_loop.simps py_slice_def
  make_chunk_def compute_expiry_def compute_hash_def str_nat.simps is_duplicate_def
  mark_indexed_def init_state_def should_index_to_rag_def is_space_def doc_request_def
  stored_chunk_def timedelta_def cleanup_expired_def is_expired_def dict_del_def

lemma run_doc_a:
  "index_content id (fixed_clock 0) init_state (doc_request ''hello world'' ''agent1'' ''doc1'' INFINITE)
     = Some (Success 1 0 1,
         \<lparr>indexed_chunks = [stored_chunk ''agent1_doc1_0_hello world'' ''hello world'' ''agent1''
                               ''doc1'' 0 INFINITE None],
          indexed_hashes = {''hello world''}, retention_settings = Map.empty\<rparr>)"
  by (simp add: run_defs fixed_clock_def)

section \<open>Claim C8: ingesting the same content twice\<close>

text \<open>
  C8: for every content that passes the inclusion gate, ingesting it twice in
  succession (same request, nothing removed in between) returns both times, and the
  second call reports \<open>indexed = 0\<close> and \<open>skipped = total_chunks\<close>; it also leaves
  the stores as the first call left them. The clock readings of the two calls are
  arbitrary.
\<close>

theorem reingest_is_skipped:
  assumes "should_index_to_rag (ir_content request) (ir_source_type request)"
  shows "\<exists>n k m s1.
           index_content digest clock1 s request = Some (Success n k m, s1)
         \<and> index_content digest clock2 s1 request = Some (Success 0 m m, s1)"
proof -
  from index_content_accepted [OF assms, of digest clock1 s]
  obtain n k m s1 where first: "index_content digest clock1 s request = Some (Success n k m, s1)"
    by (simp add: Let_def)
  from index_content_hashes [OF assms first]
  have known: "content_hashes digest (ir_content request) \<subseteq> indexed_hashes s1"
    and m: "m = length (windows_from (str_split (ir_content request)) 500 50 0)"
    by simp_all
  from index_content_known [OF assms known, of clock2] first m show ?thesis
    by simp
qed

theorem reingest_is_skipped_witness:
  "should_index_to_rag ''hello world'' ''document''
   \<and> (\<exists>s1. index_content id (fixed_clock 0) init_state
               (doc_request ''hello world'' ''agent1'' ''doc1'' INFINITE) = Some (Success 1 0 1, s1)
          \<and> index_content id (fixed_clock 7) s1
               (doc_request ''hello world'' ''agent1'' ''doc1'' INFINITE) = Some (Success 0 1 1, s1))"
proof -
  have gate: "should_index_to_rag (ir_content (doc_request ''hello world'' ''agent1'' ''doc1'' INFINITE))
                (ir_source_type (doc_request ''hello world'' ''agent1'' ''doc1'' INFINITE))"
    by (simp add: doc_request_def should_index_to_rag_def)
  from reingest_is_skipped [OF gate, of id "fixed_clock 0" init_state "fixed_clock 7"]
  show ?thesis
    by (auto simp: run_doc_a should_index_to_rag_def)
qed

section \<open>Claim C5: ingesting the same content again after a sweep\<close>

text \<open>
  C5, as stated, says that content whose chunks were all removed by an expiry sweep
  is treated as new when it is ingested again. \<open>cleanup_expired\<close> deletes from
  \<open>indexed_chunks\<close> only; the fingerprints stay in \<open>indexed_hashes\<close>. Run from
  the initial state: a document is ingested under \<open>10_days\<close> at time 0 (one chunk,
  expiring after 864000000000 microseconds), the sweep one microsecond later than
  that removes it and empties the store, and the same request then reports
  \<open>indexed = 0\<close>, \<open>skipped = 1\<close> and stores nothing.
\<close>

theorem reingest_after_sweep_still_duplicate:
  "index_content id (fixed_clock 0) init_state
       (doc_request ''hello world'' ''agent1'' ''doc1'' DAYS_10)
     = Some (Success 1 0 1,
         init_state\<lparr>indexed_chunks := [stored_chunk ''agent1_doc1_0_hello world'' ''hello world''
                                        ''agent1'' ''doc1'' 0 DAYS_10 (Some 864000000000)],
                    indexed_hashes := {''hello world''}\<rparr>)
   \<and> cleanup_expired (fixed_clock 864000000001)
        (init_state\<lparr>indexed_chunks := [stored_chunk ''agent1_doc1_0_hello world'' ''hello world''
                                        ''agent1'' ''doc1'' 0 DAYS_10 (Some 864000000000)],
                    indexed_hashes := {''hello world''}\<rparr>)
     = (1, init_state\<lparr>indexed_chunks := [], indexed_hashes := {''hello world''}\<rparr>)
   \<and> index_content id (fixed_clock 864000000002)
        (init_state\<lparr>indexed_chunks := [], indexed_hashes := {''hello world''}\<rparr>)
        (doc_request ''hello world'' ''agent1'' ''doc1'' DAYS_10)
     = Some (Success 0 1 1, init_state\<lparr>indexed_chunks := [], indexed_hashes := {''hello world''}\<rparr>)"
  by (simp add: run_defs fixed_clock_def)

text \<open>
  C5, amended: for every content that passes the inclusion gate and has been
  ingested, ingesting the same content again after an expiry sweep (whatever the
  sweep removed) is reported as duplicates: \<open>indexed = 0\<close> and
  \<open>skipped = total_chunks\<close>, and nothing is stored.
\<close>

theorem reingest_after_sweep_is_skipped:
  assumes "should_index_to_rag (ir_content request) (ir_source_type request)"
  shows "\<exists>n k m s1 removed s2.
           index_content digest clock1 s request = Some (Success n k m, s1)
         \<and> cleanup_expired clock2 s1 = (removed, s2)
         \<and> index_content digest clock3 s2 request = Some (Success 0 m m, s2)"
proof -
  from index_content_accepted [OF assms, of digest clock1 s]
  obtain n k m s1 where first: "index_content digest clock1 s request = Some (Success n k m, s1)"
    by (simp add: Let_def)
  obtain removed s2 where sweep: "cleanup_expired clock2 s1 = (removed, s2)"
    by (cases "cleanup_expired clock2 s1")
  from index_content_hashes [OF assms first]
  have known: "content_hashes digest (ir_content request) \<subseteq> indexed_hashes s1"
    and m: "m = length (windows_from (str_split (ir_content request)) 500 50 0)"
    by simp_all
  from cleanup_keeps_hashes [of clock2 s1] sweep have "indexed_hashes s2 = indexed_hashes s1"
    by simp
  with known have "content_hashes digest (ir_content request) \<subseteq> indexed_hashes s2"
    by simp
  from index_content_known [OF assms this, of clock3] first sweep m show ?thesis
    by simp
qed

theorem reingest_after_sweep_is_skipped_witness:
  "should_index_to_rag ''hello world'' ''document''
   \<and> (\<exists>s1 s2. index_content id (fixed_clock 0) init_state
               (doc_request ''hello world'' ''agent1'' ''doc1'' DAYS_10) = Some (Success 1 0 1, s1)
          \<and> cleanup_expired (fixed_clock 864000000001) s1 = (1, s2)
          \<and> indexed_chunks s2 = []
          \<and> index_content id (fixed_clock 864000000002) s2
               (doc_request ''hello world'' ''agent1'' ''doc1'' DAYS_10) = Some (Success 0 1 1, s2))"
proof -
  have gate: "should_index_to_rag (ir_content (doc_request ''hello world'' ''agent1'' ''doc1'' DAYS_10))
                (ir_source_type (doc_request ''hello world'' ''agent1'' ''doc1'' DAYS_10))"
    by (simp add: doc_request_def should_index_to_rag_def)
  have first: "index_content id (fixed_clock 0) init_state
       (doc_request ''hello world'' ''agent1'' ''doc1'' DAYS_10)
     = Some (Success 1 0 1,
         init_state\<lparr>indexed_chunks := [stored_chunk ''agent1_doc1_0_hello world'' ''hello world''
                                        ''agent1'' ''doc1'' 0 DAYS_10 (Some 864000000000)],
                    indexed_hashes := {''hello world''}\<rparr>)"
    by (simp add: run_defs fixed_clock_def)
  have sweep: "cleanup_expired (fixed_clock 864000000001)
        (init_state\<lparr>indexed_chunks := [stored_chunk ''agent1_doc1_0_hello world'' ''hello world''
                                        ''agent1'' ''doc1'' 0 DAYS_10 (Some 864000000000)],
                    indexed_hashes := {''hello world''}\<rparr>)
     = (1, init_state\<lparr>indexed_chunks := [], indexed_hashes := {''hello world''}\<rparr>)"
    by (simp add: run_defs fixed_clock_def)
  from reingest_after_sweep_is_skipped [OF gate, of id "fixed_clock 0" init_state
         "fixed_clock 864000000001" "fixed_clock 864000000002"]
  show ?thesis
    by (auto simp: first sweep should_index_to_rag_def)
qed

section \<open>Claim C9: the windows of \<open>chunk_text\<close>\<close>

text \<open>
  The words of \<open>str_split\<close> are the maximal runs of non-whitespace characters:
  no word is empty or holds a whitespace character, the words together are the text
  without its whitespace, leading whitespace is dropped (\<open>str_split_spaces\<close>), and a
  run that ends at the end of the text or before a whitespace character is one word
  (\<open>str_split_word\<close>).
\<close>

lemma takeWhile_not_space:
  "x \<in> set (takeWhile (\<lambda>x. \<not> is_space x) cs) \<Longrightarrow> \<not> is_space x"
  by (induction cs) (auto split: if_splits)

lemma str_split_token:
  "w \<in> set (str_split t) \<Longrightarrow> w \<noteq> [] \<and> (\<forall>x \<in> set w. \<not> is_space x)"
proof (induction t rule: str_split.induct)
  case 1
  then show ?case by simp
next
  case (2 c cs)
  show ?case
  proof (cases "is_space c")
    case True
    with "2.prems" have "w \<in> set (str_split cs)" by simp
    from "2.IH"(1) [OF True this] show ?thesis .
  next
    case False
    with "2.prems" have "w = c # takeWhile (\<lambda>x. \<not> is_space x) cs
        \<or> w \<in> set (str_split (dropWhile (\<lambda>x. \<not> is_space x) cs))"
      by simp
    then show ?thesis
    proof
      assume w: "w = c # takeWhile (\<lambda>x. \<not> is_space x) cs"
      have "\<forall>x \<in> set (takeWhile (\<lambda>x. \<not> is_space x) cs). \<not> is_space x"
        by (blast dest: takeWhile_not_space)
      with False w show ?thesis by simp
    next
      assume "w \<in> set (str_split (dropWhile (\<lambda>x. \<not> is_space x) cs))"
      from "2.IH"(2) [OF False this] show ?thesis .
    qed
  qed
qed

lemma filter_takeWhile_dropWhile:
  "filter P xs = takeWhile P xs @ filter P (dropWhile P xs)"
  by (induction xs) auto

lemma concat_str_split:
  "concat (str_split t) = filter (\<lambda>c. \<not> is_space c) t"
proof (induction t rule: str_split.induct)
  case 1
  then show ?case by simp
next
  case (2 c cs)
  show ?case
  proof (cases "is_space c")
    case True
    with 2 show ?thesis by simp
  next
    case False
    with 2 show ?thesis
      using filter_takeWhile_dropWhile [of "\<lambda>x. \<not> is_space x" cs] by simp
  qed
qed

lemma str_split_spaces:
  "\<forall>c \<in> set sp. is_space c \<Longrightarrow> str_split (sp @ t) = str_split t"
  by (induction sp) simp_all

lemma str_split_word:
  assumes "w \<noteq> []" and "\<forall>c \<in> set w. \<not> is_space c" and "rest = [] \<or> is_space (hd rest)"
  shows "str_split (w @ rest) = w # str_split rest"
proof -
  from assms(1) obtain c cs where w: "w = c # cs" by (cases w) auto
  from assms(2) w have c: "\<not> is_space c" and cs: "\<And>x. x \<in> set cs \<Longrightarrow> \<not> is_space x"
    by simp_all
  from assms(3) have t0: "takeWhile (\<lambda>x. \<not> is_space x) rest = []"
    and d0: "dropWhile (\<lambda>x. \<not> is_space x) rest = rest"
    by (cases rest; simp)+
  have tw: "takeWhile (\<lambda>x. \<not> is_space x) (cs @ rest) = cs"
    using takeWhile_append2 [of cs "\<lambda>x. \<not> is_space x" rest] cs t0 by simp
  have dw: "dropWhile (\<lambda>x. \<not> is_space x) (cs @ rest) = rest"
    using dropWhile_append2 [of cs "\<lambda>x. \<not> is_space x" rest] cs d0 by simp
  from c tw dw w show ?thesis by simp
qed

lemma py_slice_window:
  assumes "0 \<le> i" and "0 \<le> chunk_size"
  shows "py_slice words i (i + chunk_size) = take (nat chunk_size) (drop (nat i) words)"
proof (cases "i < int (length words)")
  case False
  with assms show ?thesis by (simp add: py_slice_def Let_def)
next
  case inside: True
  show ?thesis
  proof (cases "i + chunk_size \<le> int (length words)")
    case True
    with assms inside show ?thesis
      by (cases "chunk_size = 0") (simp_all add: py_slice_def Let_def)
  next
    case False
    with assms inside have "nat chunk_size \<ge> length (drop (nat i) words)"
      and "nat (int (length words) - i) \<ge> length (drop (nat i) words)"
      by simp_all
    with assms inside False show ?thesis
      by (simp add: py_slice_def Let_def)
  qed
qed

lemma ceil_step:
  fixes a st :: nat
  assumes "0 < st" and "0 < a"
  shows "(a + st - 1) div st = Suc ((a - st + st - 1) div st)"
proof (cases "a \<le> st")
  case True
  with assms have "(a + st - 1) div st = 1"
    by (intro div_nat_eqI) auto
  moreover from True assms have "(a - st + st - 1) div st = 0" by simp
  ultimately show ?thesis by simp
next
  case False
  define b where "b = a - st + st - 1"
  from False assms have "a + st - 1 = b + st" by (simp add: b_def)
  then have "(a + st - 1) div st = (b + st) div st" by simp
  also from assms have "\<dots> = Suc (b div st)" by simp
  finally show ?thesis by (simp only: b_def)
qed

lemma windows_from_explicit:
  "0 \<le> i \<Longrightarrow> overlap < chunk_size \<Longrightarrow> 0 \<le> chunk_size \<Longrightarrow>
     windows_from words chunk_size overlap i
       = map (\<lambda>j. join (take (nat chunk_size)
                          (drop (nat i + j * nat (chunk_size - overlap)) words)))
           [0..<(length words - nat i + nat (chunk_size - overlap) - 1)
                  div nat (chunk_size - overlap)]"
proof (induction words chunk_size overlap i rule: windows_from.induct)
  case (1 words chunk_size overlap i)
  let ?st = "nat (chunk_size - overlap)"
  let ?f = "\<lambda>k j. join (take (nat chunk_size) (drop (k + j * ?st) words))"
  from "1.prems" have st: "0 < ?st" by simp
  show ?case
  proof (cases "i < int (length words)")
    case False
    with "1.prems" have "length words - nat i = 0" by simp
    with st False show ?thesis
      by (subst windows_from.simps) simp
  next
    case True
    with "1.prems" have a: "0 < length words - nat i" by simp
    from "1.prems" have next_i: "nat (i + (chunk_size - overlap)) = nat i + ?st"
      by (simp add: nat_add_distrib)
    let ?m = "(length words - (nat i + ?st) + ?st - 1) div ?st"
    have "windows_from words chunk_size overlap (i + (chunk_size - overlap))
       = map (?f (nat i + ?st)) [0..<?m]"
      using "1.IH" True "1.prems" by (simp add: next_i)
    also have "\<dots> = map (\<lambda>j. ?f (nat i) (Suc j)) [0..<?m]"
      by (simp add: add.assoc)
    finally have tail: "windows_from words chunk_size overlap (i + (chunk_size - overlap))
       = map (\<lambda>j. ?f (nat i) (Suc j)) [0..<?m]" .
    have head: "join (py_slice words i (i + chunk_size)) = ?f (nat i) 0"
      using py_slice_window [of i chunk_size words] "1.prems" by simp
    have cnt: "(length words - nat i + ?st - 1) div ?st = Suc ?m"
      using ceil_step [OF st a] by simp
    have "windows_from words chunk_size overlap i
            = join (py_slice words i (i + chunk_size))
                # windows_from words chunk_size overlap (i + (chunk_size - overlap))"
      using True "1.prems" by (subst windows_from.simps) simp
    also have "\<dots> = ?f (nat i) 0 # map (\<lambda>j. ?f (nat i) (Suc j)) [0..<?m]"
      by (simp only: head tail)
    also have "\<dots> = map (?f (nat i)) [0..<Suc ?m]"
      by (simp only: map_upt_Suc)
    finally show ?thesis by (simp only: cnt)
  qed
qed

lemma window_count:
  fixes n st :: nat
  assumes "0 < st"
  shows "j < (n + st - 1) div st \<longleftrightarrow> j * st < n"
proof -
  have "j < (n + st - 1) div st \<longleftrightarrow> Suc j \<le> (n + st - 1) div st" by auto
  also from assms have "\<dots> \<longleftrightarrow> Suc j * st \<le> n + st - 1"
    by (rule less_eq_div_iff_mult_less_eq)
  also from assms have "\<dots> \<longleftrightarrow> j * st < n" by auto
  finally show ?thesis .
qed

lemma window_overlap:
  fixes ws :: "'a list"
  assumes "ov \<le> cs" and "a + cs \<le> length ws"
  shows "drop (cs - ov) (take cs (drop a ws)) = take ov (take cs (drop (a + (cs - ov)) ws))"
    and "length (drop (cs - ov) (take cs (drop a ws))) = ov"
proof -
  have "drop (cs - ov) (take cs (drop a ws)) = take (cs - (cs - ov)) (drop (cs - ov) (drop a ws))"
    by (simp only: drop_take)
  also from assms have "\<dots> = take ov (drop (a + (cs - ov)) ws)"
    by (simp add: add.commute)
  also from assms have "\<dots> = take ov (take cs (drop (a + (cs - ov)) ws))"
    by (simp add: min_def)
  finally show "drop (cs - ov) (take cs (drop a ws)) = take ov (take cs (drop (a + (cs - ov)) ws))" .
  from assms show "length (drop (cs - ov) (take cs (drop a ws))) = ov"
    by simp
qed

text \<open>
  C9, as stated, says that only the final window can be shorter than
  \<open>window_size\<close>. The loop goes on while the start index is below the number of
  words, so every start within the last \<open>window_size - 1\<close> words gives a short
  window: three words with \<open>chunk_size = 3\<close> and \<open>overlap = 2\<close> give the windows
  \<open>a b c\<close>, \<open>b c\<close> and \<open>c\<close>, and the second one is short and not final. A negative
  \<open>chunk_size\<close> is read by the slice from the end of the list: with \<open>chunk_size = -1\<close>
  and \<open>overlap = -2\<close> the first window holds two words.
\<close>

theorem chunk_text_short_windows:
  "chunk_text ''a b c'' 3 2 = Some [''a b c'', ''b c'', ''c'']
   \<and> chunk_text ''a b c'' (- 1) (- 2) = Some [''a b'', '''', '''']"
  by (simp add: chunk_text_def chunk_loop.simps py_slice_def is_space_def)

text \<open>
  C9, amended: for every text and every parameter pair with
  \<open>overlap < chunk_size\<close> and \<open>0 \<le> chunk_size\<close>, \<open>chunk_text\<close> returns. With \<open>n\<close> the
  number of words and \<open>step = chunk_size - overlap\<close>, there is one chunk for every
  \<open>j\<close> with \<open>j * step < n\<close>, in this order; chunk \<open>j\<close> is the blank-separated join of
  the \<open>chunk_size\<close> words from position \<open>j * step\<close> on, cut at the end of the words,
  so it has \<open>min chunk_size (n - j * step)\<close> words (every window that starts within
  the last \<open>chunk_size - 1\<close> words is short, not only the final one). When
  \<open>overlap \<ge> 0\<close>, every window that is full and has a successor shares exactly
  \<open>overlap\<close> words with it: its last \<open>overlap\<close> words are the first \<open>overlap\<close> words of
  the next window. The result is a function of the text and the two parameters.
\<close>

theorem chunk_text_windows:
  assumes "overlap < chunk_size" and "0 \<le> chunk_size"
  shows "\<exists>chunks. chunk_text t chunk_size overlap = Some chunks
     \<and> (\<forall>j. j < length chunks \<longleftrightarrow> j * nat (chunk_size - overlap) < length (str_split t))
     \<and> (\<forall>j < length chunks.
           chunks ! j = join (take (nat chunk_size)
                               (drop (j * nat (chunk_size - overlap)) (str_split t)))
         \<and> length (take (nat chunk_size) (drop (j * nat (chunk_size - overlap)) (str_split t)))
             = min (nat chunk_size) (length (str_split t) - j * nat (chunk_size - overlap)))
     \<and> (0 \<le> overlap \<longrightarrow>
          (\<forall>j. Suc j < length chunks
                \<and> j * nat (chunk_size - overlap) + nat chunk_size \<le> length (str_split t) \<longrightarrow>
             drop (nat (chunk_size - overlap))
               (take (nat chunk_size) (drop (j * nat (chunk_size - overlap)) (str_split t)))
               = take (nat overlap)
                   (take (nat chunk_size) (drop (Suc j * nat (chunk_size - overlap)) (str_split t)))
           \<and> length (drop (nat (chunk_size - overlap))
                       (take (nat chunk_size)
                          (drop (j * nat (chunk_size - overlap)) (str_split t))))
               = nat overlap))
     \<and> (\<forall>w \<in> set (str_split t). w \<noteq> [] \<and> (\<forall>x \<in> set w. \<not> is_space x))
     \<and> concat (str_split t) = filter (\<lambda>x. \<not> is_space x) t"
proof -
  let ?ws = "str_split t"
  let ?st = "nat (chunk_size - overlap)"
  let ?chunks = "map (\<lambda>j. join (take (nat chunk_size) (drop (j * ?st) ?ws)))
                   [0..<(length ?ws + ?st - 1) div ?st]"
  from assms have st: "0 < ?st" by simp
  have run: "chunk_text t chunk_size overlap = Some ?chunks"
    using windows_from_explicit [of 0 overlap chunk_size ?ws] assms
    by (simp add: chunk_text_returns)
  have count: "\<forall>j. j < length ?chunks \<longleftrightarrow> j * ?st < length ?ws"
    using window_count [OF st] by simp
  have nth: "\<forall>j < length ?chunks.
           ?chunks ! j = join (take (nat chunk_size) (drop (j * ?st) ?ws))
         \<and> length (take (nat chunk_size) (drop (j * ?st) ?ws))
             = min (nat chunk_size) (length ?ws - j * ?st)"
    by (simp add: min.commute)
  have share: "0 \<le> overlap \<longrightarrow>
          (\<forall>j. Suc j < length ?chunks \<and> j * ?st + nat chunk_size \<le> length ?ws \<longrightarrow>
             drop ?st (take (nat chunk_size) (drop (j * ?st) ?ws))
               = take (nat overlap) (take (nat chunk_size) (drop (Suc j * ?st) ?ws))
           \<and> length (drop ?st (take (nat chunk_size) (drop (j * ?st) ?ws))) = nat overlap)"
  proof (intro impI allI)
    fix j
    assume ov: "0 \<le> overlap"
      and j: "Suc j < length ?chunks \<and> j * ?st + nat chunk_size \<le> length ?ws"
    from ov assms have st_eq: "?st = nat chunk_size - nat overlap"
      and le: "nat overlap \<le> nat chunk_size"
      by (simp_all add: nat_diff_distrib)
    from j have full: "j * ?st + nat chunk_size \<le> length ?ws" by simp
    have next_start: "Suc j * ?st = j * ?st + (nat chunk_size - nat overlap)"
      by (simp add: st_eq)
    from window_overlap [OF le full]
    show "drop ?st (take (nat chunk_size) (drop (j * ?st) ?ws))
               = take (nat overlap) (take (nat chunk_size) (drop (Suc j * ?st) ?ws))
           \<and> length (drop ?st (take (nat chunk_size) (drop (j * ?st) ?ws))) = nat overlap"
      by (simp only: next_start) (simp add: st_eq)
  qed
  have tokens: "\<forall>w \<in> set ?ws. w \<noteq> [] \<and> (\<forall>x \<in> set w. \<not> is_space x)"
    using str_split_token by blast
  have cat: "concat ?ws = filter (\<lambda>x. \<not> is_space x) t"
    by (rule concat_str_split)
  from run count nth share tokens cat show ?thesis
    by (intro exI [of _ ?chunks] conjI)
qed

theorem chunk_text_windows_witness:
  "(1::int) < 3 \<and> (0::int) \<le> 3
   \<and> chunk_text ''a b c d e'' 3 1 = Some [''a b c'', ''c d e'', ''e'']
   \<and> (\<exists>chunks. chunk_text ''a b c d e'' 3 1 = Some chunks
         \<and> (\<forall>j. j < length chunks \<longleftrightarrow> j * 2 < (5::nat)))"
proof -
  have words: "length (str_split ''a b c d e'') = 5"
    by (simp add: is_space_def)
  have run: "chunk_text ''a b c d e'' 3 1 = Some [''a b c'', ''c d e'', ''e'']"
    by (simp add: chunk_text_def chunk_loop.simps py_slice_def is_space_def)
  have h1: "(1::int) < 3" and h2: "(0::int) \<le> 3" by simp_all
  from chunk_text_windows [OF h1 h2, of "''a b c d e''"]
  have "\<exists>chunks. chunk_text ''a b c d e'' 3 1 = Some chunks
         \<and> (\<forall>j. j < length chunks \<longleftrightarrow> j * nat (3 - 1) < length (str_split ''a b c d e''))"
    by (elim exE conjE, intro exI conjI) assumption+
  then have "\<exists>chunks. chunk_text ''a b c d e'' 3 1 = Some chunks
         \<and> (\<forall>j. j < length chunks \<longleftrightarrow> j * 2 < (5::nat))"
    unfolding words by simp
  with run show ?thesis by simp
qed

section \<open>Claim C10: chunk identities that collide\<close>

text \<open>
  C10, as stated, says that two identity tuples with the same \<open>chunk_id\<close> string
  (agent \<open>a\<close> with source \<open>b_c\<close>, agent \<open>a_b\<close> with source \<open>c\<close>, identical text)
  make the second ingestion overwrite the first agent's stored chunk. The identical
  text has the identical fingerprint, so the second ingestion is skipped as a
  duplicate before the store is written: the chunk of agent \<open>a\<close> stays as it was.
\<close>

theorem chunk_id_collision_is_deduplicated:
  "index_content id (fixed_clock 0) init_state (doc_request ''same text'' ''a'' ''b_c'' INFINITE)
     = Some (Success 1 0 1,
         init_state\<lparr>indexed_chunks := [stored_chunk ''a_b_c_0_same text'' ''same text''
                                        ''a'' ''b_c'' 0 INFINITE None],
                    indexed_hashes := {''same text''}\<rparr>)
   \<and> index_content id (fixed_clock 5)
        (init_state\<lparr>indexed_chunks := [stored_chunk ''a_b_c_0_same text'' ''same text''
                                        ''a'' ''b_c'' 0 INFINITE None],
                    indexed_hashes := {''same text''}\<rparr>)
        (doc_request ''same text'' ''a_b'' ''c'' INFINITE)
     = Some (Success 0 1 1,
         init_state\<lparr>indexed_chunks := [stored_chunk ''a_b_c_0_same text'' ''same text''
                                        ''a'' ''b_c'' 0 INFINITE None],
                    indexed_hashes := {''same text''}\<rparr>)"
  by (simp add: run_defs fixed_clock_def)

text \<open>
  C10, amended: the \<open>chunk_id\<close> of the chunk of ordinal \<open>j\<close> is \<open>agent_id\<close>,
  \<open>source_id\<close>, \<open>j\<close> and the content hash joined with underscores; the
  construction is not injective, since agent \<open>a\<close> with source \<open>b_c\<close> and agent
  \<open>a_b\<close> with source \<open>c\<close> get the same identities for the same chunks. No stored chunk
  is overwritten through this: when two requests with the same content are ingested
  one after the other, every chunk of the second is skipped as a duplicate and the
  stores stay as the first left them.
\<close>

theorem chunk_id_collision_no_overwrite:
  "map (\<lambda>c. chunk_id (metadata c)) (prepare_loop digest clock agent styp sid policy 0 0 ws)
     = map (\<lambda>(j, w). agent @ ''_'' @ sid @ ''_'' @ str_nat j @ ''_'' @ compute_hash digest w)
         (enumerate 0 ws)
   \<and> map (\<lambda>c. chunk_id (metadata c)) (prepare_loop digest clock ''a'' styp ''b_c'' policy 0 0 ws)
     = map (\<lambda>c. chunk_id (metadata c)) (prepare_loop digest clock' ''a_b'' styp' ''c'' policy' 0 0 ws)
   \<and> (should_index_to_rag (ir_content r1) (ir_source_type r1)
        \<and> should_index_to_rag (ir_content r2) (ir_source_type r2)
        \<and> ir_content r2 = ir_content r1 \<longrightarrow>
      (\<exists>n k m s1. index_content digest clock1 s r1 = Some (Success n k m, s1)
                 \<and> index_content digest clock2 s1 r2 = Some (Success 0 m m, s1)))"
proof (intro conjI impI)
  show "map (\<lambda>c. chunk_id (metadata c)) (prepare_loop digest clock agent styp sid policy 0 0 ws)
     = map (\<lambda>(j, w). agent @ ''_'' @ sid @ ''_'' @ str_nat j @ ''_'' @ compute_hash digest w)
         (enumerate 0 ws)"
    by (rule prepare_loop_chunk_ids)
  show "map (\<lambda>c. chunk_id (metadata c)) (prepare_loop digest clock ''a'' styp ''b_c'' policy 0 0 ws)
     = map (\<lambda>c. chunk_id (metadata c)) (prepare_loop digest clock' ''a_b'' styp' ''c'' policy' 0 0 ws)"
    by (simp add: prepare_loop_chunk_ids)
next
  assume a: "should_index_to_rag (ir_content r1) (ir_source_type r1)
        \<and> should_index_to_rag (ir_content r2) (ir_source_type r2)
        \<and> ir_content r2 = ir_content r1"
  then have g1: "should_index_to_rag (ir_content r1) (ir_source_type r1)"
    and g2: "should_index_to_rag (ir_content r2) (ir_source_type r2)"
    and same: "ir_content r2 = ir_content r1"
    by blast+
  from index_content_accepted [OF g1, of digest clock1 s]
  obtain n k m s1 where first: "index_content digest clock1 s r1 = Some (Success n k m, s1)"
    by (simp add: Let_def)
  from index_content_hashes [OF g1 first] same
  have known: "content_hashes digest (ir_content r2) \<subseteq> indexed_hashes s1"
    and m: "m = length (windows_from (str_split (ir_content r2)) 500 50 0)"
    by simp_all
  from index_content_known [OF g2 known, of clock2] first m
  show "\<exists>n k m s1. index_content digest clock1 s r1 = Some (Success n k m, s1)
                 \<and> index_content digest clock2 s1 r2 = Some (Success 0 m m, s1)"
    by simp
qed

theorem chunk_id_collision_no_overwrite_witness:
  "should_index_to_rag ''same text'' ''document''
   \<and> map (\<lambda>c. chunk_id (metadata c))
        (prepare_loop id (fixed_clock 0) ''a'' ''document'' ''b_c'' INFINITE 0 0 [''same text''])
       = [''a_b_c_0_same text'']
   \<and> map (\<lambda>c. chunk_id (metadata c))
        (prepare_loop id (fixed_clock 0) ''a_b'' ''document'' ''c'' INFINITE 0 0 [''same text''])
       = [''a_b_c_0_same text'']
   \<and> (\<exists>s1. index_content id (fixed_clock 0) init_state
               (doc_request ''same text'' ''a'' ''b_c'' INFINITE) = Some (Success 1 0 1, s1)
          \<and> map fst (indexed_chunks s1) = [''a_b_c_0_same text'']
          \<and> index_content id (fixed_clock 5) s1
               (doc_request ''same text'' ''a_b'' ''c'' INFINITE) = Some (Success 0 1 1, s1))"
proof -
  let ?r1 = "doc_request ''same text'' ''a'' ''b_c'' INFINITE"
  let ?r2 = "doc_request ''same text'' ''a_b'' ''c'' INFINITE"
  let ?S = "init_state\<lparr>indexed_chunks := [stored_chunk ''a_b_c_0_same text'' ''same text''
                                        ''a'' ''b_c'' 0 INFINITE None],
                    indexed_hashes := {''same text''}\<rparr>"
  have first: "index_content id (fixed_clock 0) init_state ?r1 = Some (Success 1 0 1, ?S)"
    by (simp add: run_defs fixed_clock_def)
  have gates: "should_index_to_rag (ir_content ?r1) (ir_source_type ?r1)
        \<and> should_index_to_rag (ir_content ?r2) (ir_source_type ?r2)
        \<and> ir_content ?r2 = ir_content ?r1"
    by (simp add: doc_request_def should_index_to_rag_def)
  note inst = chunk_id_collision_no_overwrite [of id "fixed_clock 0" "''a''" "''document''" "''b_c''"
         INFINITE "[''same text'']" "fixed_clock 0" "''document''" INFINITE ?r1 ?r2
         "fixed_clock 0" init_state "fixed_clock 5"]
  from inst [THEN conjunct2, THEN conjunct2, rule_format, OF gates]
  obtain n k m s1
    where a: "index_content id (fixed_clock 0) init_state ?r1 = Some (Success n k m, s1)"
      and b: "index_content id (fixed_clock 5) s1 ?r2 = Some (Success 0 m m, s1)"
    by blast
  from a have "m = 1" and "s1 = ?S"
    by (simp_all only: first option.inject prod.inject index_response.inject)
  with b have second: "index_content id (fixed_clock 5) ?S ?r2 = Some (Success 0 1 1, ?S)"
    by (simp only:)
  have keys: "map fst (indexed_chunks ?S) = [''a_b_c_0_same text'']"
    by (simp add: stored_chunk_def)
  have ids: "map (\<lambda>c. chunk_id (metadata c))
        (prepare_loop id (fixed_clock 0) ''a'' ''document'' ''b_c'' INFINITE 0 0 [''same text''])
       = [''a_b_c_0_same text'']"
    "map (\<lambda>c. chunk_id (metadata c))
        (prepare_loop id (fixed_clock 0) ''a_b'' ''document'' ''c'' INFINITE 0 0 [''same text''])
       = [''a_b_c_0_same text'']"
    by (simp_all add: make_chunk_def compute_hash_def str_nat.simps)
  have gate: "should_index_to_rag ''same text'' ''document''"
    by (simp add: should_index_to_rag_def)
  from first second keys have "\<exists>s1. index_content id (fixed_clock 0) init_state ?r1 = Some (Success 1 0 1, s1)
          \<and> map fst (indexed_chunks s1) = [''a_b_c_0_same text'']
          \<and> index_content id (fixed_clock 5) s1 ?r2 = Some (Success 0 1 1, s1)"
    by (intro exI [of _ ?S] conjI)
  with gate ids show ?thesis by (intro conjI)
qed

section \<open>Search: what \<open>hybrid_search\<close> returns\<close>

text \<open>
  \<open>true_div\<close> gives a nearest binary64 number. Its value is a mantissa over
  \<open>2 ^ e\<close>; it differs from the exact quotient by at most half a unit of that last
  place (\<open>true_div_error\<close>); and for \<open>0 < m \<le> n\<close>, above the subnormal range, the
  mantissa lies between \<open>2 ^ 52\<close> and \<open>2 ^ 53\<close>, so it has the 53 bits of the format
  (\<open>true_div_mantissa\<close>). The tie goes to the even mantissa by the definition.
\<close>

lemma round_half_even_error:
  fixes q r n :: nat
  assumes "r < n"
  shows "\<bar>(of_nat (if 2 * r < n then q else if n < 2 * r then q + 1
                  else if even q then q else q + 1) :: rat)
          - (of_nat q + of_nat r / of_nat n)\<bar> \<le> 1 / 2"
proof -
  from assms have n: "(0::rat) < of_nat n" by simp
  consider "2 * r < n" | "n < 2 * r" | "2 * r = n" by linarith
  then show ?thesis
  proof cases
    case 1
    then have "of_nat (2 * r) < (of_nat n :: rat)" by (simp only: of_nat_less_iff)
    then have "2 * of_nat r < (of_nat n :: rat)" by simp
    with n 1 show ?thesis by (simp add: field_simps)
  next
    case 2
    then have "(of_nat n :: rat) < of_nat (2 * r)" by (simp only: of_nat_less_iff)
    then have a: "(of_nat n :: rat) < 2 * of_nat r" by simp
    from assms have "(of_nat r :: rat) < of_nat n" by (simp only: of_nat_less_iff)
    with n 2 a show ?thesis by (simp add: field_simps abs_if)
  next
    case 3
    then have "(of_nat n :: rat) = of_nat (2 * r)" by simp
    then have a: "(of_nat n :: rat) = 2 * of_nat r" by simp
    from n a have r: "(0::rat) < of_nat r" by simp
    from 3 a r show ?thesis by (simp add: field_simps abs_if)
  qed
qed

lemma true_div_error:
  assumes "0 < n"
  shows "\<bar>true_div m n - of_nat m / of_nat n\<bar>
           \<le> 1 / 2 / 2 ^ min (52 + float_shift m n 0) 1074"
proof -
  define e where "e = min (52 + float_shift m n 0) 1074"
  define S where "S = m * 2 ^ e"
  define mant where "mant = (if 2 * (S mod n) < n then S div n
                             else if n < 2 * (S mod n) then S div n + 1
                             else if even (S div n) then S div n else S div n + 1)"
  from assms have n: "(of_nat n :: rat) \<noteq> 0" by simp
  have td: "true_div m n = of_nat mant / 2 ^ e"
    by (simp add: true_div_def Let_def e_def S_def mant_def)
  have "(of_nat (S div n) :: rat) * of_nat n + of_nat (S mod n)
          = of_nat (S div n * n + S mod n)"
    by (simp only: of_nat_add of_nat_mult)
  also have "\<dots> = of_nat S" by simp
  finally have "(of_nat S :: rat) = of_nat (S div n) * of_nat n + of_nat (S mod n)"
    by (rule sym)
  with n have split: "(of_nat S :: rat) / of_nat n = of_nat (S div n) + of_nat (S mod n) / of_nat n"
    by (simp add: field_simps)
  have "(of_nat S :: rat) = of_nat m * 2 ^ e" by (simp add: S_def)
  then have quo: "(of_nat m :: rat) / of_nat n = of_nat S / of_nat n / 2 ^ e"
    by simp
  have "true_div m n - of_nat m / of_nat n
          = (of_nat mant - (of_nat (S div n) + of_nat (S mod n) / of_nat n)) / 2 ^ e"
    by (simp only: td quo split diff_divide_distrib)
  then have "\<bar>true_div m n - of_nat m / of_nat n\<bar>
          = \<bar>of_nat mant - (of_nat (S div n) + of_nat (S mod n) / of_nat n)\<bar> / 2 ^ e"
    by (simp add: abs_divide)
  also have "\<dots> \<le> 1 / 2 / 2 ^ e"
  proof (rule divide_right_mono)
    from assms have "S mod n < n" by simp
    from round_half_even_error [OF this, of "S div n"]
    show "\<bar>(of_nat mant :: rat) - (of_nat (S div n) + of_nat (S mod n) / of_nat n)\<bar> \<le> 1 / 2"
      by (simp only: mant_def)
    show "(0::rat) \<le> 2 ^ e" by simp
  qed
  finally show ?thesis by (simp only: e_def)
qed

lemma float_shift_reaches:
  "0 < m \<Longrightarrow> n \<le> m * 2 ^ float_shift m n k"
proof (induction m n k rule: float_shift.induct)
  case (1 m n k)
  then show ?case by (subst float_shift.simps) simp
qed

lemma float_shift_least:
  "0 < m \<Longrightarrow> float_shift m n k = k \<or> m * 2 ^ (float_shift m n k - 1) < n"
proof (induction m n k rule: float_shift.induct)
  case (1 m n k)
  show ?case
  proof (cases "n \<le> m * 2 ^ k")
    case True
    then show ?thesis by (subst float_shift.simps) simp
  next
    case False
    with "1.prems" have unfold: "float_shift m n k = float_shift m n (Suc k)"
      by (subst float_shift.simps) simp
    from "1.IH" "1.prems" False
    have "float_shift m n (Suc k) = Suc k \<or> m * 2 ^ (float_shift m n (Suc k) - 1) < n"
      by simp
    then show ?thesis
    proof
      assume "float_shift m n (Suc k) = Suc k"
      with False unfold show ?thesis by simp
    next
      assume "m * 2 ^ (float_shift m n (Suc k) - 1) < n"
      with unfold show ?thesis by simp
    qed
  qed
qed

lemma true_div_mantissa:
  assumes "0 < m" and "m \<le> n" and "52 + float_shift m n 0 \<le> 1074"
  shows "\<exists>mant. true_div m n = of_nat mant / 2 ^ (52 + float_shift m n 0)
                \<and> 2 ^ 52 \<le> mant \<and> mant \<le> 2 ^ 53"
proof -
  define k where "k = float_shift m n 0"
  define S where "S = m * 2 ^ (52 + k)"
  define mant where "mant = (if 2 * (S mod n) < n then S div n
                             else if n < 2 * (S mod n) then S div n + 1
                             else if even (S div n) then S div n else S div n + 1)"
  from assms have n: "0 < n" by simp
  from assms(3) have e: "min (52 + float_shift m n 0) 1074 = 52 + k"
    by (simp add: k_def)
  have td: "true_div m n = of_nat mant / 2 ^ (52 + k)"
    by (simp add: true_div_def Let_def e S_def mant_def)
  have S: "S = m * 2 ^ k * 2 ^ 52"
    by (simp add: S_def power_add mult.commute mult.left_commute)
  from float_shift_reaches [OF assms(1), of n 0] have "n \<le> m * 2 ^ k"
    by (simp add: k_def)
  then have "n * 2 ^ 52 \<le> S" by (simp add: S)
  then have "n * 2 ^ 52 div n \<le> S div n" by (rule div_le_mono)
  with n have low: "2 ^ 52 \<le> S div n" by simp
  have up: "mant \<le> 2 ^ 53"
  proof (cases "k = 0")
    case True
    from \<open>n \<le> m * 2 ^ k\<close> True assms(2) have "m = n" by simp
    with True n have "S div n = 2 ^ 52" and "S mod n = 0" by (simp_all add: S)
    with n show ?thesis by (simp add: mant_def)
  next
    case False
    with float_shift_least [OF assms(1), of n 0] have "m * 2 ^ (k - 1) < n"
      by (simp add: k_def)
    then have "m * 2 ^ (k - 1) * 2 ^ 53 < n * 2 ^ 53" by simp
    moreover from False have "S = m * 2 ^ (k - 1) * 2 ^ 53"
    proof -
      from False obtain j where j: "k = Suc j" by (cases k) auto
      show ?thesis by (simp add: S j)
    qed
    ultimately have "S < 2 ^ 53 * n" by (simp add: mult.commute)
    with n have "S div n < 2 ^ 53" by (simp add: div_less_iff_less_mult)
    then show ?thesis by (simp add: mant_def)
  qed
  from low have "2 ^ 52 \<le> mant" by (simp add: mant_def)
  with td up show ?thesis by (auto simp: k_def)
qed

text \<open>
  Some quotients, as Python prints them: \<open>1 / 1 = 1.0\<close>, \<open>1 / 2 = 0.5\<close>,
  \<open>1 / 3 = 0.3333333333333333\<close> (which is \<open>6004799503160661 / 2 ^ 54\<close>, below the exact
  third) and \<open>1 / 10 = 0.1\<close> (which is \<open>3602879701896397 / 2 ^ 55\<close>, above the exact
  tenth).
\<close>

lemma true_div_values:
  "true_div 1 1 = 1"
  "true_div 2 2 = 1"
  "true_div 1 2 = 1 / 2"
  "true_div 1 3 = 6004799503160661 / 2 ^ 54"
  "true_div 1 10 = 3602879701896397 / 2 ^ 55"
  by (simp_all add: true_div_def float_shift.simps Let_def)

lemma true_div_counts:
  "true_div (Suc 0) (Suc 0) = 1"
  "true_div (Suc (Suc 0)) (Suc (Suc 0)) = 1"
  "true_div (Suc 0) (Suc (Suc 0)) = 1 / 2"
  "true_div (Suc 0) (Suc (Suc (Suc 0))) = 6004799503160661 / 2 ^ 54"
  "true_div (Suc 0) (Suc (Suc (Suc (Suc (Suc (Suc (Suc (Suc (Suc (Suc 0))))))))))
     = 3602879701896397 / 2 ^ 55"
proof -
  have ten: "Suc (Suc (Suc (Suc (Suc (Suc (Suc (Suc (Suc (Suc 0))))))))) = 10"
    by simp
  show "true_div (Suc 0) (Suc 0) = 1"
    using true_div_values(1) by simp
  show "true_div (Suc (Suc 0)) (Suc (Suc 0)) = 1"
    using true_div_values(2) by (simp add: numeral_2_eq_2)
  show "true_div (Suc 0) (Suc (Suc 0)) = 1 / 2"
    using true_div_values(3) by (simp add: numeral_2_eq_2)
  show "true_div (Suc 0) (Suc (Suc (Suc 0))) = 6004799503160661 / 2 ^ 54"
    using true_div_values(4) by (simp add: numeral_3_eq_3)
  show "true_div (Suc 0) (Suc (Suc (Suc (Suc (Suc (Suc (Suc (Suc (Suc (Suc 0))))))))))
     = 3602879701896397 / 2 ^ 55"
    using true_div_values(5) by (simp only: ten [symmetric] One_nat_def)
qed

lemmas search_defs =
  hybrid_search_def search_results_def search_chunk_def search_request_def
  stored_chunk_def lower_def lower_char_def is_space_def py_slice_def Let_def
  true_div_counts float_ge_def

lemma py_slice_prefix:
  "py_slice xs 0 l = take (nat (if l < 0 then max (l + int (length xs)) 0 else min l (int (length xs)))) xs"
  by (simp add: py_slice_def Let_def)

lemma filter_take_prefix:
  "filter P (take n xs) = take (length (filter P (take n xs))) (filter P xs)"
proof -
  have "filter P xs = filter P (take n xs) @ filter P (drop n xs)"
    by (metis append_take_drop_id filter_append)
  then show ?thesis by simp
qed

lemma search_chunk_cases:
  "search_chunk request agent_filter chunk = [] \<or>
   (agent_id (metadata chunk) \<in> set agent_filter
    \<and> 0 < length (filter (\<lambda>word. substring word (lower (content chunk)))
                   (str_split (lower (query request))))
    \<and> float_ge (true_div (length (filter (\<lambda>word. substring word (lower (content chunk)))
                                   (str_split (lower (query request)))))
                        (length (str_split (lower (query request)))))
         (min_score request)
    \<and> search_chunk request agent_filter chunk
         = [make_result chunk
              (true_div (length (filter (\<lambda>word. substring word (lower (content chunk)))
                                   (str_split (lower (query request)))))
                        (length (str_split (lower (query request)))))])"
  by (simp add: search_chunk_def Let_def)

lemma search_results_member:
  assumes "r \<in> set (search_results s request)"
  shows "\<exists>kv \<in> set (indexed_chunks s).
           (agent_id (metadata (snd kv)) = sr_agent_id request
            \<or> include_shared request \<and> agent_id (metadata (snd kv)) = ''shared'')
         \<and> 0 < length (filter (\<lambda>word. substring word (lower (content (snd kv))))
                          (str_split (lower (query request))))
         \<and> length (filter (\<lambda>word. substring word (lower (content (snd kv))))
                      (str_split (lower (query request))))
             \<le> length (str_split (lower (query request)))
         \<and> float_ge (score r) (min_score request)
         \<and> r = make_result (snd kv)
                 (true_div (length (filter (\<lambda>word. substring word (lower (content (snd kv))))
                                      (str_split (lower (query request)))))
                           (length (str_split (lower (query request)))))"
proof -
  let ?af = "[sr_agent_id request] @ (if include_shared request then [''shared''] else [])"
  from assms obtain kv where kv: "kv \<in> set (indexed_chunks s)"
    and r: "r \<in> set (search_chunk request ?af (snd kv))"
    by (auto simp: search_results_def Let_def split_beta)
  from r search_chunk_cases [of request ?af "snd kv"]
  have "agent_id (metadata (snd kv)) \<in> set ?af
    \<and> 0 < length (filter (\<lambda>word. substring word (lower (content (snd kv))))
                   (str_split (lower (query request))))
    \<and> float_ge (true_div (length (filter (\<lambda>word. substring word (lower (content (snd kv))))
                                   (str_split (lower (query request)))))
                        (length (str_split (lower (query request)))))
         (min_score request)
    \<and> r = make_result (snd kv)
              (true_div (length (filter (\<lambda>word. substring word (lower (content (snd kv))))
                                   (str_split (lower (query request)))))
                        (length (str_split (lower (query request)))))"
    by auto
  with kv show ?thesis
    by (intro bexI [of _ kv]) (auto simp: make_result_def split: if_splits)
qed

lemma hybrid_search_subset:
  "set (hybrid_search s request) \<subseteq> set (search_results s request)"
proof -
  have "set (hybrid_search s request) \<subseteq> set (sort_key (\<lambda>x. - score x) (search_results s request))"
    unfolding hybrid_search_def py_slice_prefix by (rule set_take_subset)
  then show ?thesis by simp
qed

lemma hybrid_search_sorted:
  "sorted_wrt (\<lambda>a b. score b \<le> score a) (hybrid_search s request)"
proof -
  have "sorted (map (\<lambda>x. - score x) (sort_key (\<lambda>x. - score x) (search_results s request)))"
    by (rule sorted_sort_key)
  then have "sorted_wrt (\<lambda>a b. score b \<le> score a)
               (sort_key (\<lambda>x. - score x) (search_results s request))"
    by (simp add: sorted_map)
  then show ?thesis
    unfolding hybrid_search_def py_slice_prefix by (rule sorted_wrt_take)
qed

lemma hybrid_search_stable:
  "\<exists>m. filter (\<lambda>r. score r = x) (hybrid_search s request)
         = take m (filter (\<lambda>r. score r = x) (search_results s request))"
proof -
  have "filter (\<lambda>r. - score r = - x) (sort_key (\<lambda>x. - score x) (search_results s request))
          = filter (\<lambda>r. - score r = - x) (search_results s request)"
    by (rule sort_key_stable)
  then have st: "filter (\<lambda>r. score r = x) (sort_key (\<lambda>x. - score x) (search_results s request))
          = filter (\<lambda>r. score r = x) (search_results s request)"
    by simp
  show ?thesis
    unfolding hybrid_search_def py_slice_prefix
    by (subst filter_take_prefix, subst st) blast
qed

section \<open>Claim C1: the score of a search result\<close>

text \<open>
  C1, as stated, says that the score of every returned candidate is its Reciprocal
  Rank Fusion score with \<open>k = 60\<close>, and that ties go to the candidate found by more
  backends, then to the smaller chunk identity. The source has one scoring loop and
  no fusion. A chunk \<open>alpha\<close> found by the query \<open>alpha\<close> is returned with score 1;
  its fusion score is \<open>1/61\<close> when one backend ranks it first, and \<open>3/61\<close> when
  three do. Two chunks of equal score come back in the order of the store, here the
  chunk \<open>a_z_0_alpha one\<close> before the chunk \<open>a_b_0_alpha two\<close>, whose identity is the
  smaller one.
\<close>

theorem search_score_is_not_rank_fusion:
  "map score (hybrid_search
       (init_state\<lparr>indexed_chunks := [stored_chunk ''a_d_0_alpha'' ''alpha'' ''a'' ''d'' 0 INFINITE None]\<rparr>)
       (search_request ''alpha'' ''a'')) = [1]
   \<and> spec_rrf_score 60 [[''a_d_0_alpha'']] ''a_d_0_alpha'' = 1 / 61
   \<and> spec_rrf_score 60 [[''a_d_0_alpha''], [''a_d_0_alpha''], [''a_d_0_alpha'']] ''a_d_0_alpha'' = 3 / 61
   \<and> map res_source_id (hybrid_search
       (init_state\<lparr>indexed_chunks :=
          [stored_chunk ''a_z_0_alpha one'' ''alpha one'' ''a'' ''z'' 0 INFINITE None,
           stored_chunk ''a_b_0_alpha two'' ''alpha two'' ''a'' ''b'' 0 INFINITE None]\<rparr>)
       (search_request ''alpha'' ''a'')) = [''z'', ''b'']"
  by (simp add: search_defs make_result_def spec_rrf_score_def)

text \<open>
  C1, amended: for every search call, whatever its \<open>search_type\<close>, every returned
  result comes from a stored chunk owned by the requesting agent (or by \<open>shared\<close>,
  when shared content is included), and its score is the binary64 quotient
  \<open>matches / len(query_words)\<close>: the number of words of the lower-cased query that
  occur as substrings of the lower-cased chunk content, divided in floating point
  by the number of query words. At least one word matches, and the score is
  \<open>>= min_score\<close> as floats compare. The results are in descending order of score,
  and results of equal score keep the order of the store.
\<close>

theorem search_score_is_match_fraction:
  "(\<forall>r \<in> set (hybrid_search s request).
      \<exists>kv \<in> set (indexed_chunks s).
           (agent_id (metadata (snd kv)) = sr_agent_id request
            \<or> include_shared request \<and> agent_id (metadata (snd kv)) = ''shared'')
         \<and> 0 < length (filter (\<lambda>word. substring word (lower (content (snd kv))))
                          (str_split (lower (query request))))
         \<and> length (filter (\<lambda>word. substring word (lower (content (snd kv))))
                      (str_split (lower (query request))))
             \<le> length (str_split (lower (query request)))
         \<and> float_ge (score r) (min_score request)
         \<and> r = make_result (snd kv)
                 (true_div (length (filter (\<lambda>word. substring word (lower (content (snd kv))))
                                      (str_split (lower (query request)))))
                           (length (str_split (lower (query request))))))
   \<and> sorted_wrt (\<lambda>a b. score b \<le> score a) (hybrid_search s request)
   \<and> (\<forall>x. \<exists>m. filter (\<lambda>r. score r = x) (hybrid_search s request)
                  = take m (filter (\<lambda>r. score r = x) (search_results s request)))"
proof (intro conjI ballI allI)
  fix r assume "r \<in> set (hybrid_search s request)"
  with hybrid_search_subset have "r \<in> set (search_results s request)" by blast
  then show "\<exists>kv \<in> set (indexed_chunks s).
           (agent_id (metadata (snd kv)) = sr_agent_id request
            \<or> include_shared request \<and> agent_id (metadata (snd kv)) = ''shared'')
         \<and> 0 < length (filter (\<lambda>word. substring word (lower (content (snd kv))))
                          (str_split (lower (query request))))
         \<and> length (filter (\<lambda>word. substring word (lower (content (snd kv))))
                      (str_split (lower (query request))))
             \<le> length (str_split (lower (query request)))
         \<and> float_ge (score r) (min_score request)
         \<and> r = make_result (snd kv)
                 (true_div (length (filter (\<lambda>word. substring word (lower (content (snd kv))))
                                      (str_split (lower (query request)))))
                           (length (str_split (lower (query request)))))"
    by (rule search_results_member)
next
  show "sorted_wrt (\<lambda>a b. score b \<le> score a) (hybrid_search s request)"
    by (rule hybrid_search_sorted)
next
  fix x
  show "\<exists>m. filter (\<lambda>r. score r = x) (hybrid_search s request)
                  = take m (filter (\<lambda>r. score r = x) (search_results s request))"
    by (rule hybrid_search_stable)
qed

theorem search_score_is_match_fraction_witness:
  "map score (hybrid_search
       (init_state\<lparr>indexed_chunks :=
          [stored_chunk ''a_d_0_alpha'' ''alpha'' ''a'' ''d'' 0 INFINITE None,
           stored_chunk ''a_e_0_alpha beta'' ''alpha beta'' ''a'' ''e'' 0 INFINITE None,
           stored_chunk ''a_f_0_gamma'' ''gamma'' ''a'' ''f'' 0 INFINITE None,
           stored_chunk ''b_g_0_beta alpha'' ''beta alpha'' ''b'' ''g'' 0 INFINITE None]\<rparr>)
       (search_request ''alpha beta'' ''a'')) = [1, 1 / 2]
   \<and> sorted_wrt (\<lambda>a b. score b \<le> score a) (hybrid_search
       (init_state\<lparr>indexed_chunks :=
          [stored_chunk ''a_d_0_alpha'' ''alpha'' ''a'' ''d'' 0 INFINITE None,
           stored_chunk ''a_e_0_alpha beta'' ''alpha beta'' ''a'' ''e'' 0 INFINITE None,
           stored_chunk ''a_f_0_gamma'' ''gamma'' ''a'' ''f'' 0 INFINITE None,
           stored_chunk ''b_g_0_beta alpha'' ''beta alpha'' ''b'' ''g'' 0 INFINITE None]\<rparr>)
       (search_request ''alpha beta'' ''a''))
   \<and> map score (hybrid_search
       (init_state\<lparr>indexed_chunks := [stored_chunk ''a_d_0_alpha'' ''alpha'' ''a'' ''d'' 0 INFINITE None]\<rparr>)
       ((search_request ''alpha beta gamma'' ''a'')\<lparr>min_score := Finite (3602879701896397 / 2 ^ 55)\<rparr>))
     = [6004799503160661 / 2 ^ 54]
   \<and> map score (hybrid_search
       (init_state\<lparr>indexed_chunks := [stored_chunk ''a_d_0_alpha'' ''alpha'' ''a'' ''d'' 0 INFINITE None]\<rparr>)
       ((search_request ''alpha b1 b2 b3 b4 b5 b6 b7 b8 b9'' ''a'')
          \<lparr>min_score := Finite (3602879701896397 / 2 ^ 55)\<rparr>))
     = [3602879701896397 / 2 ^ 55]
   \<and> hybrid_search
       (init_state\<lparr>indexed_chunks := [stored_chunk ''a_d_0_alpha'' ''alpha'' ''a'' ''d'' 0 INFINITE None]\<rparr>)
       ((search_request ''alpha'' ''a'')\<lparr>min_score := NaN\<rparr>) = []"
proof -
  let ?s = "init_state\<lparr>indexed_chunks :=
          [stored_chunk ''a_d_0_alpha'' ''alpha'' ''a'' ''d'' 0 INFINITE None,
           stored_chunk ''a_e_0_alpha beta'' ''alpha beta'' ''a'' ''e'' 0 INFINITE None,
           stored_chunk ''a_f_0_gamma'' ''gamma'' ''a'' ''f'' 0 INFINITE None,
           stored_chunk ''b_g_0_beta alpha'' ''beta alpha'' ''b'' ''g'' 0 INFINITE None]\<rparr>"
  let ?one = "init_state\<lparr>indexed_chunks :=
          [stored_chunk ''a_d_0_alpha'' ''alpha'' ''a'' ''d'' 0 INFINITE None]\<rparr>"
  have run: "map score (hybrid_search ?s (search_request ''alpha beta'' ''a'')) = [1, 1 / 2]"
    by (simp add: search_defs make_result_def)
  have third: "map score (hybrid_search ?one
       ((search_request ''alpha beta gamma'' ''a'')\<lparr>min_score := Finite (3602879701896397 / 2 ^ 55)\<rparr>))
     = [6004799503160661 / 2 ^ 54]"
    by (simp add: search_defs make_result_def)
  have tenth: "map score (hybrid_search ?one
       ((search_request ''alpha b1 b2 b3 b4 b5 b6 b7 b8 b9'' ''a'')
          \<lparr>min_score := Finite (3602879701896397 / 2 ^ 55)\<rparr>))
     = [3602879701896397 / 2 ^ 55]"
    by (simp add: search_defs make_result_def)
  have nan: "hybrid_search ?one ((search_request ''alpha'' ''a'')\<lparr>min_score := NaN\<rparr>) = []"
    by (simp add: search_defs make_result_def)
  from search_score_is_match_fraction [of ?s "search_request ''alpha beta'' ''a''"]
  have "sorted_wrt (\<lambda>a b. score b \<le> score a) (hybrid_search ?s (search_request ''alpha beta'' ''a''))"
    by (rule conjunct2 [THEN conjunct1])
  with run third tenth nan show ?thesis by (intro conjI)
qed

section \<open>Claim C2: expired chunks and search\<close>

text \<open>
  C2, as stated, says that a chunk whose \<open>expires_at\<close> has passed at query time is
  not returned, also before a sweep has removed it. \<open>hybrid_search\<close> reads neither
  the clock nor \<open>expires_at\<close>. A chunk that expired at 5 is returned by a search
  made at any later time, with score 1, as long as it is in the store; the sweep at
  6 is what removes it.
\<close>

theorem search_returns_expired_chunk:
  "hybrid_search
     (init_state\<lparr>indexed_chunks := [stored_chunk ''a_d_0_alpha'' ''alpha'' ''a'' ''d'' 0 DAYS_10 (Some 5)]\<rparr>)
     (search_request ''alpha'' ''a'')
   = [make_result (snd (stored_chunk ''a_d_0_alpha'' ''alpha'' ''a'' ''d'' 0 DAYS_10 (Some 5))) 1]
   \<and> cleanup_expired (fixed_clock 6)
        (init_state\<lparr>indexed_chunks := [stored_chunk ''a_d_0_alpha'' ''alpha'' ''a'' ''d'' 0 DAYS_10 (Some 5)]\<rparr>)
      = (1, init_state\<lparr>indexed_chunks := []\<rparr>)"
  by (simp add: search_defs run_defs fixed_clock_def)

text \<open>
  C2, amended: for every search call, the returned results do not depend on the
  \<open>expires_at\<close> of any chunk: a stored chunk that matches is returned whether or not
  its expiry has passed. Only a sweep that removes it from the store keeps it out
  of the results.
\<close>

theorem search_ignores_expiry:
  "hybrid_search
     (s\<lparr>indexed_chunks :=
          map (\<lambda>kv. (fst kv, (snd kv)\<lparr>metadata := (metadata (snd kv))\<lparr>expires_at := e kv\<rparr>\<rparr>))
            (indexed_chunks s)\<rparr>) request
   = hybrid_search s request"
proof -
  have "\<And>af c x. search_chunk request af (c\<lparr>metadata := (metadata c)\<lparr>expires_at := x\<rparr>\<rparr>)
                  = search_chunk request af c"
    by (simp add: search_chunk_def make_result_def Let_def)
  then have "search_results
     (s\<lparr>indexed_chunks :=
          map (\<lambda>kv. (fst kv, (snd kv)\<lparr>metadata := (metadata (snd kv))\<lparr>expires_at := e kv\<rparr>\<rparr>))
            (indexed_chunks s)\<rparr>) request
   = search_results s request"
    by (simp add: search_results_def Let_def comp_def case_prod_unfold)
  then show ?thesis by (simp add: hybrid_search_def)
qed

theorem search_ignores_expiry_witness:
  "hybrid_search
     (init_state\<lparr>indexed_chunks := [stored_chunk ''a_d_0_alpha'' ''alpha'' ''a'' ''d'' 0 DAYS_10 None]\<rparr>)
     (search_request ''alpha'' ''a'')
   = hybrid_search
     (init_state\<lparr>indexed_chunks := [stored_chunk ''a_d_0_alpha'' ''alpha'' ''a'' ''d'' 0 DAYS_10 (Some 5)]\<rparr>)
     (search_request ''alpha'' ''a'')"
  using search_ignores_expiry [where
     s = "init_state\<lparr>indexed_chunks := [stored_chunk ''a_d_0_alpha'' ''alpha'' ''a'' ''d'' 0 DAYS_10 (Some 5)]\<rparr>"
     and e = "\<lambda>kv. None" and request = "search_request ''alpha'' ''a''"]
  by (simp add: stored_chunk_def)

section \<open>Claim C3: the expiry sweep\<close>

text \<open>
  The store is a dict: its keys are distinct. This holds in \<open>init_state\<close> and every
  operation keeps it.
\<close>

lemma dict_set_keys:
  "map fst (dict_set kvs k v) = (if k \<in> set (map fst kvs) then map fst kvs else map fst kvs @ [k])"
  by (induction kvs) force+

lemma index_loop_distinct:
  "distinct (map fst (indexed_chunks s)) \<Longrightarrow>
     distinct (map fst (indexed_chunks (fst (index_loop s n k cs))))"
proof (induction cs arbitrary: s n k)
  case Nil
  then show ?case by simp
next
  case (Cons c cs)
  show ?case
  proof (cases "is_duplicate s (content_hash (metadata c))")
    case True
    with Cons show ?thesis by simp
  next
    case False
    let ?s = "mark_indexed
                (s\<lparr>indexed_chunks := dict_set (indexed_chunks s) (chunk_id (metadata c)) c\<rparr>)
                (content_hash (metadata c))"
    from Cons.prems have "distinct (map fst (indexed_chunks ?s))"
      by (simp add: mark_indexed_def dict_set_keys)
    from Cons.IH [OF this] False show ?thesis by simp
  qed
qed

lemma index_content_distinct:
  assumes "distinct (map fst (indexed_chunks s))"
    and "index_content digest clock s request = Some (resp, s')"
  shows "distinct (map fst (indexed_chunks s'))"
proof (cases "should_index_to_rag (ir_content request) (ir_source_type request)")
  case True
  from assms(2) index_content_accepted [OF True, of digest clock s]
  have "s' = fst (index_loop s 0 0
                   (prepare_loop digest clock (ir_agent_id request) (ir_source_type request)
                      (ir_source_id request) (ir_retention_policy request) 0 0
                      (windows_from (str_split (ir_content request)) 500 50 0)))"
    by (simp add: Let_def)
  with assms(1) show ?thesis by (simp add: index_loop_distinct)
next
  case False
  with assms show ?thesis by (simp add: index_content_def)
qed

lemma retention_loop_keys:
  "map fst (fst (retention_loop clock agent policy t updated kvs)) = map fst kvs"
  by (induction kvs arbitrary: t updated) (simp_all add: Let_def)

lemma set_retention_policy_distinct:
  "distinct (map fst (indexed_chunks s)) \<Longrightarrow>
     distinct (map fst (indexed_chunks (snd (set_retention_policy clock s agent policy))))"
  by (simp add: set_retention_policy_def Let_def split_beta retention_loop_keys)

lemma foldl_dict_del:
  "foldl dict_del kvs ks = filter (\<lambda>kv. fst kv \<notin> set ks) kvs"
proof (induction ks arbitrary: kvs)
  case Nil
  then show ?case by simp
next
  case (Cons k ks)
  have "foldl dict_del (dict_del kvs k) ks
          = filter (\<lambda>kv. fst kv \<notin> set ks) (filter (\<lambda>kv. fst kv \<noteq> k) kvs)"
    by (simp only: Cons.IH dict_del_def)
  then show ?case by (simp add: conj_commute)
qed

lemma cleanup_expired_distinct:
  "distinct (map fst (indexed_chunks s)) \<Longrightarrow>
     distinct (map fst (indexed_chunks (snd (cleanup_expired clock s))))"
  by (simp add: cleanup_expired_def Let_def foldl_dict_del distinct_map_filter)

lemma removed_keys_distinct:
  assumes "distinct (map fst kvs)" and "kv \<in> set kvs"
  shows "fst kv \<in> fst ` {x \<in> set kvs. P x} \<longleftrightarrow> P kv"
proof
  assume "fst kv \<in> fst ` {x \<in> set kvs. P x}"
  then obtain x where x: "x \<in> set kvs" "P x" "fst x = fst kv" by auto
  from assms x have "x = kv"
    by (metis eq_key_imp_eq_value prod.collapse)
  with x show "P kv" by simp
next
  assume "P kv"
  with assms show "fst kv \<in> fst ` {x \<in> set kvs. P x}" by auto
qed

lemma cleanup_expired_eq:
  assumes "distinct (map fst (indexed_chunks s))"
  shows "cleanup_expired clock s =
     (length (filter (\<lambda>kv. is_expired (clock 0) (snd kv)) (indexed_chunks s)),
      s\<lparr>indexed_chunks := filter (\<lambda>kv. \<not> is_expired (clock 0) (snd kv)) (indexed_chunks s)\<rparr>)"
proof -
  let ?P = "\<lambda>kv. is_expired (clock 0) (snd kv)"
  have P: "(\<lambda>(cid, chunk). is_expired (clock 0) chunk) = ?P"
    by (simp add: fun_eq_iff split_beta)
  have "filter (\<lambda>kv. fst kv \<notin> set (map fst (filter ?P (indexed_chunks s)))) (indexed_chunks s)
          = filter (\<lambda>kv. \<not> ?P kv) (indexed_chunks s)"
  proof (rule filter_cong [OF refl])
    fix kv assume "kv \<in> set (indexed_chunks s)"
    from removed_keys_distinct [OF assms this, of ?P]
    show "(fst kv \<notin> set (map fst (filter ?P (indexed_chunks s)))) = (\<not> ?P kv)"
      by simp
  qed
  then show ?thesis
    by (simp add: cleanup_expired_def Let_def P foldl_dict_del)
qed

text \<open>
  C3, as stated, says that the sweep at \<open>now\<close> removes the chunks whose
  \<open>expires_at\<close> is not null and less than or equal to \<open>now\<close>. The test of the source
  is \<open>expires_at < now\<close>: a chunk that expires at 5 is kept by the sweep at 5, and the
  sweep reports 0 removed.
\<close>

theorem sweep_keeps_chunk_expiring_now:
  "cleanup_expired (fixed_clock 5)
     (init_state\<lparr>indexed_chunks := [stored_chunk ''a_d_0_x'' ''x'' ''a'' ''d'' 0 DAYS_10 (Some 5)],
                indexed_hashes := {''x''}\<rparr>)
   = (0, init_state\<lparr>indexed_chunks := [stored_chunk ''a_d_0_x'' ''x'' ''a'' ''d'' 0 DAYS_10 (Some 5)],
                indexed_hashes := {''x''}\<rparr>)"
  by (simp add: run_defs fixed_clock_def)

text \<open>
  C3, amended: for every store (a dict, so its keys are distinct) and every instant
  \<open>now\<close> read by the sweep, \<open>cleanup_expired\<close> removes exactly the chunks whose
  \<open>expires_at\<close> is not null and strictly less than \<open>now\<close>, keeps every other chunk
  in its place, returns the number of removed chunks, and changes neither the
  fingerprint set nor the retention settings.
\<close>

theorem cleanup_removes_exactly_expired:
  assumes "distinct (map fst (indexed_chunks s))"
    and "cleanup_expired clock s = (removed, s')"
  shows "indexed_chunks s'
           = filter (\<lambda>kv. \<not> (\<exists>e. expires_at (metadata (snd kv)) = Some e \<and> e < clock 0))
               (indexed_chunks s)
       \<and> removed = length (filter (\<lambda>kv. \<exists>e. expires_at (metadata (snd kv)) = Some e \<and> e < clock 0)
                             (indexed_chunks s))
       \<and> indexed_hashes s' = indexed_hashes s
       \<and> retention_settings s' = retention_settings s"
proof -
  have exp: "\<And>c. is_expired (clock 0) c = (\<exists>e. expires_at (metadata c) = Some e \<and> e < clock 0)"
    by (simp add: is_expired_def split: option.splits)
  from assms(2) show ?thesis
    by (simp add: cleanup_expired_eq [OF assms(1)] exp) auto
qed

theorem cleanup_removes_exactly_expired_witness:
  "cleanup_expired (fixed_clock 6)
     (init_state\<lparr>indexed_chunks := [stored_chunk ''a_d_0_x'' ''x'' ''a'' ''d'' 0 DAYS_10 (Some 5),
                                    stored_chunk ''a_d_1_y'' ''y'' ''a'' ''d'' 0 DAYS_10 (Some 6),
                                    stored_chunk ''a_d_2_z'' ''z'' ''a'' ''d'' 0 INFINITE None]\<rparr>)
   = (1, init_state\<lparr>indexed_chunks := [stored_chunk ''a_d_1_y'' ''y'' ''a'' ''d'' 0 DAYS_10 (Some 6),
                                       stored_chunk ''a_d_2_z'' ''z'' ''a'' ''d'' 0 INFINITE None]\<rparr>)"
proof -
  let ?s = "init_state\<lparr>indexed_chunks := [stored_chunk ''a_d_0_x'' ''x'' ''a'' ''d'' 0 DAYS_10 (Some 5),
                                    stored_chunk ''a_d_1_y'' ''y'' ''a'' ''d'' 0 DAYS_10 (Some 6),
                                    stored_chunk ''a_d_2_z'' ''z'' ''a'' ''d'' 0 INFINITE None]\<rparr>"
  have d: "distinct (map fst (indexed_chunks ?s))"
    by (simp add: stored_chunk_def)
  obtain removed s' where run: "cleanup_expired (fixed_clock 6) ?s = (removed, s')"
    by (cases "cleanup_expired (fixed_clock 6) ?s")
  have s': "s' = ?s\<lparr>indexed_chunks := indexed_chunks s'\<rparr>"
    using run by (auto simp: cleanup_expired_def Let_def)
  from cleanup_removes_exactly_expired [OF d run]
  have "indexed_chunks s' = [stored_chunk ''a_d_1_y'' ''y'' ''a'' ''d'' 0 DAYS_10 (Some 6),
                             stored_chunk ''a_d_2_z'' ''z'' ''a'' ''d'' 0 INFINITE None]"
    and "removed = 1"
    by (simp_all add: stored_chunk_def fixed_clock_def)
  with run s' show ?thesis by simp
qed

section \<open>Claim C6: setting the retention policy of an agent\<close>

lemma compute_expiry_fst:
  "fst (compute_expiry clock t policy)
     = (case RETENTION_DAYS policy of None \<Rightarrow> None | Some days \<Rightarrow> Some (clock t + timedelta days))"
  by (cases policy) (simp_all add: compute_expiry_def)

lemma compute_expiry_snd:
  "snd (compute_expiry clock t policy) = (if policy = INFINITE then t else Suc t)"
  by (cases policy) (simp_all add: compute_expiry_def)

lemma update_chunk_INFINITE:
  "update_chunk clock INFINITE t chunk = update_chunk clock INFINITE t' chunk"
  by (simp add: update_chunk_def compute_expiry_def)

lemma retention_loop_count:
  "snd (retention_loop clock agent policy t updated kvs)
     = updated + length (filter (\<lambda>kv. agent_id (metadata (snd kv)) = agent) kvs)"
  by (induction kvs arbitrary: t updated) (simp_all add: Let_def)

lemma retention_loop_length:
  "length (fst (retention_loop clock agent policy t updated kvs)) = length kvs"
  by (induction kvs arbitrary: t updated) (simp_all add: Let_def)

lemma retention_loop_nth:
  "i < length kvs \<Longrightarrow>
     fst (retention_loop clock agent policy t updated kvs) ! i
       = (if agent_id (metadata (snd (kvs ! i))) = agent
          then (fst (kvs ! i),
                update_chunk clock policy
                  (t + length (filter (\<lambda>kv. agent_id (metadata (snd kv)) = agent) (take i kvs)))
                  (snd (kvs ! i)))
          else kvs ! i)"
proof (induction kvs arbitrary: t updated i)
  case Nil
  then show ?case by simp
next
  case (Cons kv kvs)
  show ?case
  proof (cases i)
    case 0
    then show ?thesis by (simp add: Let_def)
  next
    case (Suc j)
    with Cons.prems have j: "j < length kvs" by simp
    show ?thesis
    proof (cases "policy = INFINITE")
      case True
      show ?thesis
        using Cons.IH [OF j] Suc True
          update_chunk_INFINITE [of clock
             "t + length (filter (\<lambda>kv. agent_id (metadata (snd kv)) = agent) (take j kvs))"
             "snd (kvs ! j)"
             "Suc (t + length (filter (\<lambda>kv. agent_id (metadata (snd kv)) = agent) (take j kvs)))"]
        by (simp add: Let_def compute_expiry_snd)
    next
      case False
      then show ?thesis
        using Cons.IH [OF j] Suc by (simp add: Let_def compute_expiry_snd)
    qed
  qed
qed

text \<open>
  C6: \<open>set_retention_policy\<close> records the policy of the agent and returns the
  number of chunks owned by that agent. Every chunk keeps its key and its place; a
  chunk of another agent is not touched; a chunk of the agent gets the new policy
  and, for a policy with a day count, \<open>expires_at\<close> = the clock plus that many days,
  for \<open>INFINITE\<close>, \<open>expires_at = None\<close>. The clock is read once per updated chunk:
  the chunk that has \<open>j\<close> chunks of the agent before it in the store gets the
  \<open>j\<close>-th reading of the call as its \<open>now\<close>.
\<close>

theorem set_retention_policy_updates_owner:
  assumes "set_retention_policy clock s agent policy = (updated, s')"
  shows "updated = length (filter (\<lambda>kv. agent_id (metadata (snd kv)) = agent) (indexed_chunks s))
       \<and> length (indexed_chunks s') = length (indexed_chunks s)
       \<and> (\<forall>i < length (indexed_chunks s).
            fst (indexed_chunks s' ! i) = fst (indexed_chunks s ! i)
          \<and> (agent_id (metadata (snd (indexed_chunks s ! i))) \<noteq> agent \<longrightarrow>
               indexed_chunks s' ! i = indexed_chunks s ! i)
          \<and> (agent_id (metadata (snd (indexed_chunks s ! i))) = agent \<longrightarrow>
               snd (indexed_chunks s' ! i)
                 = (snd (indexed_chunks s ! i))
                     \<lparr>metadata := (metadata (snd (indexed_chunks s ! i)))
                        \<lparr>retention_policy := policy,
                         expires_at :=
                           (case RETENTION_DAYS policy of
                              None \<Rightarrow> None
                            | Some days \<Rightarrow>
                                Some (clock (length (filter (\<lambda>kv. agent_id (metadata (snd kv)) = agent)
                                                       (take i (indexed_chunks s))))
                                      + timedelta days))\<rparr>\<rparr>))
       \<and> retention_settings s' = (retention_settings s)(agent \<mapsto> policy)
       \<and> indexed_hashes s' = indexed_hashes s"
proof -
  let ?r = "retention_loop clock agent policy 0 0 (indexed_chunks s)"
  from assms have u: "updated = snd ?r"
    and s': "s' = s\<lparr>retention_settings := (retention_settings s)(agent \<mapsto> policy),
                    indexed_chunks := fst ?r\<rparr>"
    by (auto simp: set_retention_policy_def Let_def split: prod.splits)
  have chunks: "indexed_chunks s' = fst ?r" by (simp add: s')
  show ?thesis
  proof (intro conjI allI impI)
    show "updated = length (filter (\<lambda>kv. agent_id (metadata (snd kv)) = agent) (indexed_chunks s))"
      by (simp add: u retention_loop_count)
    show "length (indexed_chunks s') = length (indexed_chunks s)"
      by (simp add: chunks retention_loop_length)
    show "retention_settings s' = (retention_settings s)(agent \<mapsto> policy)"
      by (simp add: s')
    show "indexed_hashes s' = indexed_hashes s"
      by (simp add: s')
  next
    fix i assume i: "i < length (indexed_chunks s)"
    from retention_loop_nth [OF i, of clock agent policy 0 0]
    show "fst (indexed_chunks s' ! i) = fst (indexed_chunks s ! i)"
      by (simp add: chunks)
  next
    fix i assume i: "i < length (indexed_chunks s)"
      and other: "agent_id (metadata (snd (indexed_chunks s ! i))) \<noteq> agent"
    from retention_loop_nth [OF i, of clock agent policy 0 0] other
    show "indexed_chunks s' ! i = indexed_chunks s ! i"
      by (simp add: chunks)
  next
    fix i assume i: "i < length (indexed_chunks s)"
      and own: "agent_id (metadata (snd (indexed_chunks s ! i))) = agent"
    from retention_loop_nth [OF i, of clock agent policy 0 0] own
    show "snd (indexed_chunks s' ! i)
                 = (snd (indexed_chunks s ! i))
                     \<lparr>metadata := (metadata (snd (indexed_chunks s ! i)))
                        \<lparr>retention_policy := policy,
                         expires_at :=
                           (case RETENTION_DAYS policy of
                              None \<Rightarrow> None
                            | Some days \<Rightarrow>
                                Some (clock (length (filter (\<lambda>kv. agent_id (metadata (snd kv)) = agent)
                                                       (take i (indexed_chunks s))))
                                      + timedelta days))\<rparr>\<rparr>"
      by (simp add: chunks update_chunk_def compute_expiry_fst)
  qed
qed

theorem set_retention_policy_updates_owner_witness:
  "\<exists>updated s'.
     set_retention_policy (fixed_clock 1000)
       (init_state\<lparr>indexed_chunks := [stored_chunk ''a_d_0_x'' ''x'' ''a'' ''d'' 0 INFINITE None,
                                      stored_chunk ''b_d_0_y'' ''y'' ''b'' ''d'' 0 DAYS_10 (Some 7)]\<rparr>)
       ''a'' DAYS_30 = (updated, s')
     \<and> updated = 1
     \<and> indexed_chunks s' = [stored_chunk ''a_d_0_x'' ''x'' ''a'' ''d'' 0 DAYS_30 (Some 2592000001000),
                            stored_chunk ''b_d_0_y'' ''y'' ''b'' ''d'' 0 DAYS_10 (Some 7)]"
proof -
  let ?s = "init_state\<lparr>indexed_chunks := [stored_chunk ''a_d_0_x'' ''x'' ''a'' ''d'' 0 INFINITE None,
                                      stored_chunk ''b_d_0_y'' ''y'' ''b'' ''d'' 0 DAYS_10 (Some 7)]\<rparr>"
  obtain updated s' where run: "set_retention_policy (fixed_clock 1000) ?s ''a'' DAYS_30 = (updated, s')"
    by (cases "set_retention_policy (fixed_clock 1000) ?s ''a'' DAYS_30")
  note inst = set_retention_policy_updates_owner [OF run]
  from inst have u: "updated = 1"
    by (simp add: stored_chunk_def)
  from inst have len: "length (indexed_chunks s') = 2"
    by simp
  from inst [THEN conjunct2, THEN conjunct2, THEN conjunct1, rule_format, of 0]
  have c0: "indexed_chunks s' ! 0 = stored_chunk ''a_d_0_x'' ''x'' ''a'' ''d'' 0 DAYS_30 (Some 2592000001000)"
    by (simp add: stored_chunk_def fixed_clock_def timedelta_def prod_eq_iff)
  from inst [THEN conjunct2, THEN conjunct2, THEN conjunct1, rule_format, of 1]
  have c1: "indexed_chunks s' ! 1 = stored_chunk ''b_d_0_y'' ''y'' ''b'' ''d'' 0 DAYS_10 (Some 7)"
    by (simp add: stored_chunk_def)
  from len c0 c1 have "indexed_chunks s'
      = [stored_chunk ''a_d_0_x'' ''x'' ''a'' ''d'' 0 DAYS_30 (Some 2592000001000),
         stored_chunk ''b_d_0_y'' ''y'' ''b'' ''d'' 0 DAYS_10 (Some 7)]"
    by (simp add: list_eq_iff_nth_eq less_Suc_eq numeral_2_eq_2)
  with run u show ?thesis by blast
qed

section \<open>Claim C7: the inclusion gate\<close>

text \<open>
  C7: a request is accepted for indexing if and only if its \<open>source_type\<close> is
  \<open>document\<close> or \<open>conversation_complete\<close>, or it is not \<open>system\<close> and the content has
  more than 100 characters. An accepted request is chunked and indexed and answers
  with the three counters; a rejected one answers
  \<open>{status: skipped, reason: content_type_excluded}\<close> and leaves every store as it was.
\<close>

theorem inclusion_gate:
  "(should_index_to_rag (ir_content request) (ir_source_type request) \<longleftrightarrow>
      ir_source_type request = ''document''
      \<or> ir_source_type request = ''conversation_complete''
      \<or> (ir_source_type request \<noteq> ''system'' \<and> length (ir_content request) > 100))
   \<and> (should_index_to_rag (ir_content request) (ir_source_type request) \<longrightarrow>
        (\<exists>n k m s'. index_content digest clock s request = Some (Success n k m, s')))
   \<and> (\<not> should_index_to_rag (ir_content request) (ir_source_type request) \<longrightarrow>
        index_content digest clock s request = Some (Skipped ''content_type_excluded'', s))"
proof (intro conjI impI)
  show "should_index_to_rag (ir_content request) (ir_source_type request) \<longleftrightarrow>
      ir_source_type request = ''document''
      \<or> ir_source_type request = ''conversation_complete''
      \<or> (ir_source_type request \<noteq> ''system'' \<and> length (ir_content request) > 100)"
    by (auto simp: should_index_to_rag_def)
next
  assume "should_index_to_rag (ir_content request) (ir_source_type request)"
  from index_content_accepted [OF this]
  show "\<exists>n k m s'. index_content digest clock s request = Some (Success n k m, s')"
    by (simp add: Let_def)
next
  assume "\<not> should_index_to_rag (ir_content request) (ir_source_type request)"
  then show "index_content digest clock s request = Some (Skipped ''content_type_excluded'', s)"
    by (simp add: index_content_def)
qed

theorem inclusion_gate_witness:
  "\<not> should_index_to_rag (replicate 200 CHR ''x'') ''system''
   \<and> index_content id (fixed_clock 0) init_state
        \<lparr>ir_content = replicate 200 CHR ''x'', ir_agent_id = ''a'', ir_source_type = ''system'',
         ir_source_id = ''s'', ir_extract_entities = True, ir_retention_policy = INFINITE\<rparr>
       = Some (Skipped ''content_type_excluded'', init_state)
   \<and> should_index_to_rag ''x'' ''document''
   \<and> \<not> should_index_to_rag (replicate 100 CHR ''x'') ''memory''
   \<and> should_index_to_rag (replicate 101 CHR ''x'') ''memory''"
  using inclusion_gate [of "\<lparr>ir_content = replicate 200 CHR ''x'', ir_agent_id = ''a'',
         ir_source_type = ''system'', ir_source_id = ''s'', ir_extract_entities = True,
         ir_retention_policy = INFINITE\<rparr>" id "fixed_clock 0" init_state]
    inclusion_gate [of "\<lparr>ir_content = ''x'', ir_agent_id = ''a'',
         ir_source_type = ''document'', ir_source_id = ''s'', ir_extract_entities = True,
         ir_retention_policy = INFINITE\<rparr>" id "fixed_clock 0" init_state]
    inclusion_gate [of "\<lparr>ir_content = replicate 100 CHR ''x'', ir_agent_id = ''a'',
         ir_source_type = ''memory'', ir_source_id = ''s'', ir_extract_entities = True,
         ir_retention_policy = INFINITE\<rparr>" id "fixed_clock 0" init_state]
    inclusion_gate [of "\<lparr>ir_content = replicate 101 CHR ''x'', ir_agent_id = ''a'',
         ir_source_type = ''memory'', ir_source_id = ''s'', ir_extract_entities = True,
         ir_retention_policy = INFINITE\<rparr>" id "fixed_clock 0" init_state]
  by simp

end
